theory Spec2Isabelle
  imports Main "HOL-Library.Word"
begin

section \<open>Zone data of the signer engine (signer/zonedata.c)\<close>

text \<open>
  A shallow embedding of \<^verbatim>\<open>src/signer/src/signer/zonedata.c\<close>.

  \<^item> An \<^verbatim>\<open>ldns_rbtree_t\<close> is the list of its nodes' data in key order; a node pointer
    (\<^verbatim>\<open>ldns_rbnode_t*\<close>) is a position in that list, \<^verbatim>\<open>LDNS_RBTREE_NULL\<close> is \<open>None\<close>.
  \<^item> A pointer field that refers to a node's data across calls (\<^verbatim>\<open>domain->parent\<close>,
    \<^verbatim>\<open>domain->denial\<close>, \<^verbatim>\<open>denial->domain\<close>, \<^verbatim>\<open>domain->nsec3\<close>) is the key of that node:
    a tree holds one node per key.
  \<^item> \<^verbatim>\<open>zonedata_create\<close> allocates the domain tree and the denial chain, and no function
    of the file resets them while the zone data lives, so a zone data value always has
    both; only \<^verbatim>\<open>nsec3_domains\<close> may be \<^verbatim>\<open>NULL\<close>.
  \<^item> The helpers of \<^verbatim>\<open>signer/domain.c\<close> and of ldns that the file calls are not part of
    the sources: the functions below take them as arguments.
\<close>

subsection \<open>Domain names\<close>

type_synonym label = string
type_synonym ldns_rdf = "label list"  \<comment> \<open>a dname: leftmost label first, the root is \<open>[]\<close>\<close>

definition LDNS_DNAME_NORMALIZE :: "char \<Rightarrow> char" where
  "LDNS_DNAME_NORMALIZE c =
     (if 65 \<le> (of_char c :: nat) \<and> (of_char c :: nat) \<le> 90
      then char_of ((of_char c :: nat) + 32) else c)"

text \<open>
  The label loop of \<^verbatim>\<open>ldns_dname_compare\<close>: byte by byte, case folded, a label that is a
  proper prefix of the other sorts first.
\<close>

fun label_compare :: "label \<Rightarrow> label \<Rightarrow> int" where
  "label_compare [] [] = 0"
| "label_compare [] (y # ys) = -1"
| "label_compare (x # xs) [] = 1"
| "label_compare (x # xs) (y # ys) =
     (if (of_char (LDNS_DNAME_NORMALIZE x) :: nat) < of_char (LDNS_DNAME_NORMALIZE y) then -1
      else if (of_char (LDNS_DNAME_NORMALIZE x) :: nat) > of_char (LDNS_DNAME_NORMALIZE y) then 1
      else label_compare xs ys)"

text \<open>
  \<^verbatim>\<open>ldns_dname_compare\<close> walks both names from the last label to the first; \<open>rev_compare\<close>
  is that walk on the reversed label lists.
\<close>

fun rev_compare :: "label list \<Rightarrow> label list \<Rightarrow> int" where
  "rev_compare [] [] = 0"
| "rev_compare [] (y # ys) = -1"
| "rev_compare (x # xs) [] = 1"
| "rev_compare (x # xs) (y # ys) =
     (if label_compare x y \<noteq> 0 then label_compare x y else rev_compare xs ys)"

definition ldns_dname_compare :: "ldns_rdf \<Rightarrow> ldns_rdf \<Rightarrow> int" where
  "ldns_dname_compare a b = rev_compare (rev a) (rev b)"

text \<open>
  \<^verbatim>\<open>ldns_dname_is_subdomain(sub, parent)\<close>: false for equal names, otherwise all labels
  of \<open>parent\<close> match the last labels of \<open>sub\<close>, case folded.
\<close>

definition ldns_dname_is_subdomain :: "ldns_rdf \<Rightarrow> ldns_rdf \<Rightarrow> bool" where
  "ldns_dname_is_subdomain sub parent =
     (sub \<noteq> parent \<and> length parent \<le> length sub \<and>
      map (map LDNS_DNAME_NORMALIZE) (drop (length sub - length parent) sub) =
      map (map LDNS_DNAME_NORMALIZE) parent)"

definition ldns_dname_left_chop :: "ldns_rdf \<Rightarrow> ldns_rdf option" where
  "ldns_dname_left_chop d = (case d of [] \<Rightarrow> None | l # ls \<Rightarrow> Some ls)"

subsection \<open>Records of the zone data\<close>

type_synonym uint32_t = "32 word"
type_synonym size_t = "64 word"
type_synonym ldns_rr_type = nat
type_synonym ldns_rr_class = nat

definition LDNS_RR_TYPE_CNAME :: ldns_rr_type where "LDNS_RR_TYPE_CNAME = 5"
definition LDNS_RR_TYPE_DNAME :: ldns_rr_type where "LDNS_RR_TYPE_DNAME = 39"
definition LDNS_RR_TYPE_NS :: ldns_rr_type where "LDNS_RR_TYPE_NS = 2"

datatype ods_status =
  ODS_STATUS_OK | ODS_STATUS_ASSERT_ERR | ODS_STATUS_CONFLICT_ERR | ODS_STATUS_ERR

datatype domain_status =
  DOMAIN_STATUS_NONE | DOMAIN_STATUS_APEX | DOMAIN_STATUS_AUTH | DOMAIN_STATUS_NS
| DOMAIN_STATUS_DS | DOMAIN_STATUS_ENT_AUTH | DOMAIN_STATUS_ENT_NS | DOMAIN_STATUS_ENT_GLUE
| DOMAIN_STATUS_OCCLUDED | DOMAIN_STATUS_HASH

text \<open>
  Modelled from the spec: the structures of \<^verbatim>\<open>ldns/rr.h\<close>, \<^verbatim>\<open>signer/rrset.h\<close>,
  \<^verbatim>\<open>signer/domain.h\<close> and \<^verbatim>\<open>signer/denial.h\<close>, which are not part of the sources. The
  records hold the fields that the spec's data model lists and that \<^verbatim>\<open>zonedata.c\<close> reads
  or writes.
\<close>

record ldns_rr =
  rr_owner :: ldns_rdf
  rr_type :: ldns_rr_type
  rr_class :: ldns_rr_class
  rr_ttl :: uint32_t
  rr_rdata :: "string list"

record rrset_type =
  rrset_rr_type :: ldns_rr_type
  committed :: "string list list"
  pending_add :: "string list list"
  pending_del :: "string list list"

record nsec_rr =
  nsec_next :: ldns_rdf
  nsec_ttl :: uint32_t
  nsec_class :: ldns_rr_class
  nsec_types :: "ldns_rr_type list"

record domain_type =
  dname :: ldns_rdf
  parent :: "ldns_rdf option"
  denial :: "ldns_rdf option"
  nsec3 :: "ldns_rdf option"
  rrsets :: "rrset_type list"
  dstatus :: domain_status
  subdomain_count :: size_t
  subdomain_auth :: size_t
  nsec_bitmap_changed :: int
  nsec_nxt_changed :: int
  nsec_rrset :: "nsec_rr option"

record denial_type =
  owner :: ldns_rdf
  rrset :: "rrset_type option"
  domain :: "ldns_rdf option"
  bitmap_changed :: int
  nxt_changed :: int

text \<open>\<^verbatim>\<open>struct zonedata_struct\<close> of \<^verbatim>\<open>zonedata.h\<close>.\<close>

record zonedata_type =
  domains :: "domain_type list"
  denial_chain :: "denial_type list"
  nsec3_domains :: "domain_type list option"
  initialized :: int
  default_ttl :: uint32_t
  inbound_serial :: uint32_t
  internal_serial :: uint32_t
  outbound_serial :: uint32_t

text \<open>The one field of \<^verbatim>\<open>signconf_type\<close> that \<^verbatim>\<open>zonedata_update_serial\<close> reads.\<close>

record signconf_type =
  soa_serial :: "string option"

subsection \<open>The serial (zonedata_update_serial, lines 1304-1385)\<close>

text \<open>
  Modelled from the spec: the macro \<^verbatim>\<open>DNS_SERIAL_GT\<close> of \<^verbatim>\<open>shared/util.h\<close>, which is not
  part of the sources. It is the "greater than" of RFC 1982 on 32-bit serial numbers.
\<close>

definition DNS_SERIAL_GT :: "uint32_t \<Rightarrow> uint32_t \<Rightarrow> bool" where
  "DNS_SERIAL_GT a b =
     ((unat a < unat b \<and> unat b - unat a > 2 ^ 31) \<or>
      (unat a > unat b \<and> unat a - unat b < 2 ^ 31))"

text \<open>
  \<^verbatim>\<open>ods_max\<close> compares two \<^verbatim>\<open>uint32_t\<close> and returns the larger through an \<^verbatim>\<open>int\<close>; the
  caller stores it in a \<^verbatim>\<open>uint32_t\<close> again, which gives the same 32 bits.
\<close>

definition ods_max :: "uint32_t \<Rightarrow> uint32_t \<Rightarrow> uint32_t" where
  "ods_max a b = (if a > b then a else b)"

text \<open>
  Lines 1373-1384, the end that all accepted policies share: mark the zone data
  initialized, clamp the update and store \<open>prev + update\<close>.
\<close>

definition serial_store :: "zonedata_type \<Rightarrow> uint32_t \<Rightarrow> uint32_t \<Rightarrow> int \<times> zonedata_type" where
  "serial_store zd prev update =
     (let zd1 = (if initialized zd = 0 then zd\<lparr>initialized := 1\<rparr> else zd);
          update1 = (if update > 0x7FFFFFFF then 0x7FFFFFFF else update)
      in (0, zd1\<lparr>internal_serial := prev + update1\<rparr>))"

text \<open>
  \<open>now\<close> is \<^verbatim>\<open>(uint32_t) time_now()\<close> and \<open>datestamp\<close> is
  \<^verbatim>\<open>(uint32_t) time_datestamp(0, "%Y%m%d", NULL)\<close>. \<^verbatim>\<open>ods_strcmp\<close> is equality of the two
  strings; \<^verbatim>\<open>strncmp(s, p, n) == 0\<close> compares the first \<open>n\<close> characters.
\<close>

definition zonedata_update_serial ::
  "uint32_t \<Rightarrow> uint32_t \<Rightarrow> zonedata_type \<Rightarrow> signconf_type \<Rightarrow> int \<times> zonedata_type" where
  "zonedata_update_serial now datestamp zd sc =
     (let prev = internal_serial zd in
      case soa_serial sc of
        None \<Rightarrow> (1, zd)
      | Some s \<Rightarrow>
          if s = ''unixtime'' then
            (let soa = ods_max (inbound_serial zd) now;
                 soa1 = (if \<not> DNS_SERIAL_GT soa prev then prev + 1 else soa)
             in serial_store zd prev (soa1 - prev))
          else if take 7 s = ''counter'' then
            (let soa = ods_max (inbound_serial zd) prev in
             if initialized zd = 0
             then (0, zd\<lparr>internal_serial := soa + 1, initialized := 1\<rparr>)
             else
               (let soa1 = (if \<not> DNS_SERIAL_GT soa prev then prev + 1 else soa)
                in serial_store zd prev (soa1 - prev)))
          else if take 11 s = ''datecounter'' then
            (let soa = ods_max (inbound_serial zd) (datestamp * 100);
                 soa1 = (if \<not> DNS_SERIAL_GT soa prev then prev + 1 else soa)
             in serial_store zd prev (soa1 - prev))
          else if take 4 s = ''keep'' then
            (let soa = inbound_serial zd in
             if initialized zd \<noteq> 0 \<and> \<not> DNS_SERIAL_GT soa prev then (1, zd)
             else serial_store zd soa 0)
          else (1, zd))"

subsection \<open>The red-black tree of ldns, as the list of its nodes in key order\<close>

text \<open>
  \<open>key\<close> reads a node's key from its data (\<^verbatim>\<open>domain2node\<close> and \<^verbatim>\<open>denial2node\<close> set
  \<^verbatim>\<open>node->key\<close> to \<^verbatim>\<open>domain->dname\<close> and \<^verbatim>\<open>denial->owner\<close>); the trees are created with
  \<^verbatim>\<open>domain_compare\<close>, which is \<^verbatim>\<open>ldns_dname_compare\<close>.
\<close>

definition domain_compare :: "ldns_rdf \<Rightarrow> ldns_rdf \<Rightarrow> int" where
  "domain_compare x y = ldns_dname_compare x y"

fun ldns_rbtree_search :: "('a \<Rightarrow> ldns_rdf) \<Rightarrow> 'a list \<Rightarrow> ldns_rdf \<Rightarrow> nat option" where
  "ldns_rbtree_search key [] k = None"
| "ldns_rbtree_search key (x # xs) k =
     (if domain_compare (key x) k = 0 then Some 0
      else map_option Suc (ldns_rbtree_search key xs k))"

text \<open>
  \<^verbatim>\<open>ldns_rbtree_insert\<close> refuses a key that the tree holds; otherwise the new node stands
  after the nodes with a smaller key. The result is the new node and the new tree.
\<close>

definition ldns_rbtree_insert ::
  "('a \<Rightarrow> ldns_rdf) \<Rightarrow> 'a list \<Rightarrow> 'a \<Rightarrow> (nat \<times> 'a list) option" where
  "ldns_rbtree_insert key tree x =
     (case ldns_rbtree_search key tree (key x) of
        Some n \<Rightarrow> None
      | None \<Rightarrow>
          (let i = length (takeWhile (\<lambda>y. domain_compare (key y) (key x) < 0) tree)
           in Some (i, take i tree @ x # drop i tree)))"

definition ldns_rbtree_delete :: "'a list \<Rightarrow> nat \<Rightarrow> 'a list" where
  "ldns_rbtree_delete tree n = take n tree @ drop (Suc n) tree"

definition ldns_rbtree_first :: "'a list \<Rightarrow> nat option" where
  "ldns_rbtree_first tree = (if tree = [] then None else Some 0)"

definition ldns_rbtree_last :: "'a list \<Rightarrow> nat option" where
  "ldns_rbtree_last tree = (if tree = [] then None else Some (length tree - 1))"

text \<open>The successor of the sentinel \<^verbatim>\<open>LDNS_RBTREE_NULL\<close> is the sentinel itself.\<close>

definition ldns_rbtree_next :: "'a list \<Rightarrow> nat option \<Rightarrow> nat option" where
  "ldns_rbtree_next tree node =
     (case node of None \<Rightarrow> None
      | Some n \<Rightarrow> if Suc n < length tree then Some (Suc n) else None)"

definition ldns_rbtree_previous :: "nat option \<Rightarrow> nat option" where
  "ldns_rbtree_previous node =
     (case node of None \<Rightarrow> None | Some n \<Rightarrow> if n = 0 then None else Some (n - 1))"

text \<open>
  The idiom of lines 347-350, 413-416, 448-451, 707-710 and 745-748: the predecessor of
  a node of the tree, or the last node of the tree when the node is the first.
\<close>

definition previous_or_last :: "'a list \<Rightarrow> nat \<Rightarrow> nat" where
  "previous_or_last tree n =
     (case ldns_rbtree_previous (Some n) of
        Some p \<Rightarrow> p
      | None \<Rightarrow> (case ldns_rbtree_last tree of Some l \<Rightarrow> l | None \<Rightarrow> n))"

subsection \<open>Lookups (lines 248-293 and 551-582)\<close>

definition zonedata_domain_search :: "domain_type list \<Rightarrow> ldns_rdf option \<Rightarrow> nat option" where
  "zonedata_domain_search tree dn =
     (case dn of None \<Rightarrow> None | Some k \<Rightarrow> ldns_rbtree_search dname tree k)"

definition zonedata_lookup_domain :: "zonedata_type \<Rightarrow> ldns_rdf option \<Rightarrow> nat option" where
  "zonedata_lookup_domain zd dn =
     (if dn = None then None else zonedata_domain_search (domains zd) dn)"

definition zonedata_denial_search :: "denial_type list \<Rightarrow> ldns_rdf option \<Rightarrow> nat option" where
  "zonedata_denial_search tree dn =
     (case dn of None \<Rightarrow> None | Some k \<Rightarrow> ldns_rbtree_search owner tree k)"

definition zonedata_lookup_denial :: "zonedata_type \<Rightarrow> ldns_rdf option \<Rightarrow> nat option" where
  "zonedata_lookup_denial zd dn =
     (if dn = None then None else zonedata_denial_search (denial_chain zd) dn)"

subsection \<open>Adding a denial of existence data point (lines 585-718)\<close>

text \<open>The fields of \<^verbatim>\<open>nsec3params_type\<close> that \<^verbatim>\<open>zonedata.c\<close> reads.\<close>

record nsec3params_type =
  algorithm :: nat
  flags :: nat
  iterations :: nat
  salt_len :: nat
  salt_data :: "nat list"

text \<open>
  \<^verbatim>\<open>ldns_nsec3_hash_name\<close> is the argument \<open>H\<close>: the hashed label as a name of one label,
  or \<open>None\<close> when hashing fails. \<^verbatim>\<open>ldns_dname_cat_clone\<close> puts the first name before the
  second; it fails only when memory is short, which the model leaves out.
\<close>

type_synonym nsec3_hash = "ldns_rdf \<Rightarrow> nat \<Rightarrow> nat \<Rightarrow> nat \<Rightarrow> nat list \<Rightarrow> ldns_rdf option"

definition ldns_dname_cat_clone :: "ldns_rdf \<Rightarrow> ldns_rdf \<Rightarrow> ldns_rdf option" where
  "ldns_dname_cat_clone rd1 rd2 = Some (rd1 @ rd2)"

definition dname_hash :: "nsec3_hash \<Rightarrow> ldns_rdf \<Rightarrow> ldns_rdf \<Rightarrow> nsec3params_type \<Rightarrow> ldns_rdf option" where
  "dname_hash H dn apex nsec3params =
     (case H dn (algorithm nsec3params) (iterations nsec3params) (salt_len nsec3params)
             (salt_data nsec3params) of
        None \<Rightarrow> None
      | Some hashed_label \<Rightarrow> ldns_dname_cat_clone hashed_label apex)"

text \<open>
  Modelled from the spec: \<^verbatim>\<open>denial_create\<close> of \<^verbatim>\<open>signer/denial.c\<close>, which is not part of
  the sources. The new data point has the owner it is given, no RRset, no domain, and
  both flags clear.
\<close>

definition denial_create :: "ldns_rdf \<Rightarrow> denial_type" where
  "denial_create ow = \<lparr>owner = ow, rrset = None, domain = None, bitmap_changed = 0, nxt_changed = 0\<rparr>"

text \<open>Lines 669-681: the owner of the data point, hashed when NSEC3 parameters are given.\<close>

definition denial_owner ::
  "nsec3_hash \<Rightarrow> domain_type \<Rightarrow> ldns_rdf \<Rightarrow> nsec3params_type option \<Rightarrow> ldns_rdf option" where
  "denial_owner H d apex nsec3params =
     (case nsec3params of
        Some p \<Rightarrow> dname_hash H (dname d) apex p
      | None \<Rightarrow> Some (dname d))"

text \<open>
  The domain is passed by reference: the function takes the record and returns it with
  \<^verbatim>\<open>domain->denial\<close> set. The back reference \<^verbatim>\<open>denial->domain\<close> is the name of the domain.
\<close>

definition zonedata_add_denial ::
  "nsec3_hash \<Rightarrow> zonedata_type \<Rightarrow> domain_type option \<Rightarrow> ldns_rdf option \<Rightarrow>
   nsec3params_type option \<Rightarrow> ods_status \<times> zonedata_type \<times> domain_type option" where
  "zonedata_add_denial H zd dmn apex nsec3params =
     (case dmn of
        None \<Rightarrow> (ODS_STATUS_ASSERT_ERR, zd, dmn)
      | Some d \<Rightarrow>
     (case apex of
        None \<Rightarrow> (ODS_STATUS_ASSERT_ERR, zd, dmn)
      | Some a \<Rightarrow>
     (case denial_owner H d a nsec3params of
        None \<Rightarrow> (ODS_STATUS_ERR, zd, dmn)
      | Some ow \<Rightarrow>
          if zonedata_lookup_denial zd (Some ow) \<noteq> None
          then (ODS_STATUS_CONFLICT_ERR, zd, dmn)
          else
            (case ldns_rbtree_insert owner (denial_chain zd) (denial_create ow) of
               None \<Rightarrow> (ODS_STATUS_ERR, zd, dmn)
             | Some (new_node, chain) \<Rightarrow>
                 (let chain1 = chain[new_node :=
                        (chain ! new_node)\<lparr>bitmap_changed := 1, nxt_changed := 1\<rparr>];
                      prev_node = previous_or_last chain1 new_node;
                      chain2 = chain1[prev_node := (chain1 ! prev_node)\<lparr>nxt_changed := 1\<rparr>];
                      d1 = d\<lparr>denial := Some ow\<rparr>;
                      chain3 = chain2[new_node := (chain2 ! new_node)\<lparr>domain := Some (dname d1)\<rparr>]
                  in (ODS_STATUS_OK, zd\<lparr>denial_chain := chain3\<rparr>, Some d1))))))"

subsection \<open>Log lines\<close>

text \<open>
  The lines that \<^verbatim>\<open>zonedata_examine\<close> and \<^verbatim>\<open>zonedata_del_rr\<close> write with \<^verbatim>\<open>ods_log_*\<close> are
  part of their results, as a severity and a text. The other functions' log lines do not
  change the zone data and are left out.
\<close>

datatype log_severity = LOG_DEBUG | LOG_WARNING | LOG_ERROR | LOG_CRIT | LOG_ALERT

type_synonym log_entry = "log_severity \<times> string"

subsection \<open>Rollback (lines 907-929)\<close>

text \<open>
  \<open>domain_rollback\<close> is the helper of \<^verbatim>\<open>signer/domain.c\<close>: the domain after its pending
  changes are dropped.
\<close>

function rollback_loop ::
  "(domain_type \<Rightarrow> domain_type) \<Rightarrow> domain_type list \<Rightarrow> nat option \<Rightarrow> domain_type list" where
  "rollback_loop domain_rollback tree node =
     (case node of
        None \<Rightarrow> tree
      | Some n \<Rightarrow>
          if n < length tree
          then rollback_loop domain_rollback (tree[n := domain_rollback (tree ! n)])
                 (ldns_rbtree_next tree node)
          else tree)"
  by pat_completeness auto
termination
  by (relation "measure (\<lambda>(r, tree, node). case node of None \<Rightarrow> 0 | Some n \<Rightarrow> length tree - n)")
     (auto simp: ldns_rbtree_next_def split: if_splits)

definition zonedata_rollback ::
  "(domain_type \<Rightarrow> domain_type) \<Rightarrow> zonedata_type \<Rightarrow> zonedata_type" where
  "zonedata_rollback domain_rollback zd =
     zd\<lparr>domains := rollback_loop domain_rollback (domains zd)
            (if domains zd \<noteq> [] then ldns_rbtree_first (domains zd) else None)\<rparr>"

text \<open>
  Modelled from the spec: \<^verbatim>\<open>rrset_rollback\<close> and \<^verbatim>\<open>domain_rollback\<close> as section 4.2 of
  the spec describes them (clear both pending sets, on every RRset of the domain). They
  stand in for the helper where an example needs one.
\<close>

definition rrset_rollback :: "rrset_type \<Rightarrow> rrset_type" where
  "rrset_rollback r = r\<lparr>pending_add := [], pending_del := []\<rparr>"

definition domain_rollback_spec :: "domain_type \<Rightarrow> domain_type" where
  "domain_rollback_spec d = d\<lparr>rrsets := map rrset_rollback (rrsets d)\<rparr>"

subsection \<open>Deleting an RR (lines 1748-1769)\<close>

definition zonedata_del_rr ::
  "(domain_type \<Rightarrow> ldns_rr \<Rightarrow> int \<times> domain_type) \<Rightarrow> zonedata_type \<Rightarrow> ldns_rr \<Rightarrow>
   int \<times> zonedata_type \<times> log_entry list" where
  "zonedata_del_rr domain_del_rr zd rr =
     (case zonedata_lookup_domain zd (Some (rr_owner rr)) of
        Some n \<Rightarrow>
          (case domain_del_rr (domains zd ! n) rr of
             (r, d) \<Rightarrow> (r, zd\<lparr>domains := (domains zd)[n := d]\<rparr>, []))
      | None \<Rightarrow>
          (0, zd, [(LOG_WARNING, ''unable to delete RR from zonedata: no such domain'')]))"

subsection \<open>Examination (lines 1444-1581)\<close>

text \<open>The helpers of \<^verbatim>\<open>signer/domain.c\<close> that the examination calls; each returns an \<^verbatim>\<open>int\<close>.\<close>

record examine_helpers =
  domain_examine_rrset_is_alone :: "domain_type \<Rightarrow> ldns_rr_type \<Rightarrow> int"
  domain_examine_rrset_is_singleton :: "domain_type \<Rightarrow> ldns_rr_type \<Rightarrow> int"
  domain_examine_valid_zonecut :: "domain_type \<Rightarrow> int"
  domain_examine_data_exists :: "domain_type \<Rightarrow> ldns_rr_type \<Rightarrow> int \<Rightarrow> int"
  domain_examine_ns_rdata :: "domain_type \<Rightarrow> ldns_rdf \<Rightarrow> int"

datatype adapter_mode = ADAPTER_FILE | ADAPTER_MYSQL

text \<open>The loop of lines 1477-1523 over the names above the domain.\<close>

function occluded_loop ::
  "examine_helpers \<Rightarrow> zonedata_type \<Rightarrow> domain_type \<Rightarrow> ldns_rdf \<Rightarrow> ldns_rdf option \<Rightarrow>
   int \<times> log_entry list" where
  "occluded_loop h zd dmn apex parent_rdf =
     (case parent_rdf of
        None \<Rightarrow> (0, [])
      | Some p \<Rightarrow>
          if ldns_dname_is_subdomain p apex \<and> ldns_dname_compare p apex \<noteq> 0 then
            (let parent_domain = zonedata_lookup_domain zd (Some p);
                 next_rdf = ldns_dname_left_chop p
             in case parent_domain of
                  None \<Rightarrow> occluded_loop h zd dmn apex next_rdf
                | Some n \<Rightarrow>
                    if domain_examine_data_exists h (domains zd ! n) LDNS_RR_TYPE_DNAME 0 = 0 \<and>
                       domain_examine_data_exists h dmn 0 0 = 0
                    then (1, [(LOG_WARNING, ''occluded data (below DNAME)'')])
                    else if domain_examine_data_exists h (domains zd ! n) LDNS_RR_TYPE_NS 0 = 0 \<and>
                       domain_examine_data_exists h dmn 0 1 = 0
                    then (1, [(LOG_WARNING, ''occluded (non-glue) data (below NS)'')])
                    else if domain_examine_data_exists h (domains zd ! n) LDNS_RR_TYPE_NS 0 = 0 \<and>
                       domain_examine_data_exists h dmn 0 0 = 0 \<and>
                       domain_examine_ns_rdata h (domains zd ! n) (dname dmn) \<noteq> 0
                    then (1, [(LOG_WARNING, ''occluded data (below NS)'')])
                    else occluded_loop h zd dmn apex next_rdf)
          else (0, []))"
  by pat_completeness auto
termination
  by (relation "measure (\<lambda>(h, zd, dmn, apex, p). case p of None \<Rightarrow> 0 | Some l \<Rightarrow> Suc (length l))")
     (auto simp: ldns_dname_left_chop_def split: list.splits)

definition zonedata_examine_domain_is_occluded ::
  "examine_helpers \<Rightarrow> zonedata_type \<Rightarrow> domain_type \<Rightarrow> ldns_rdf \<Rightarrow> int \<times> log_entry list" where
  "zonedata_examine_domain_is_occluded h zd dmn apex =
     (if ldns_dname_compare (dname dmn) apex = 0 then (0, [])
      else if domain_examine_valid_zonecut h dmn \<noteq> 0
      then (1, [(LOG_WARNING, ''occluded (non-glue non-DS) data at NS'')])
      else occluded_loop h zd dmn apex (ldns_dname_left_chop (dname dmn)))"

text \<open>
  The loop of lines 1550-1575. \<open>result\<close> is the variable of that name; the result of the
  occlusion check is assigned to \<open>error\<close> and not read again.
\<close>

function examine_loop ::
  "examine_helpers \<Rightarrow> zonedata_type \<Rightarrow> ldns_rdf \<Rightarrow> adapter_mode \<Rightarrow> nat option \<Rightarrow> int \<Rightarrow>
   log_entry list \<Rightarrow> int \<times> log_entry list" where
  "examine_loop h zd apex mode node result lg =
     (case node of
        None \<Rightarrow> (result, lg)
      | Some n \<Rightarrow>
          if n < length (domains zd) then
            (let dmn = domains zd ! n;
                 error = (if domain_examine_rrset_is_alone h dmn LDNS_RR_TYPE_CNAME \<noteq> 0 \<or>
                             domain_examine_rrset_is_singleton h dmn LDNS_RR_TYPE_CNAME \<noteq> 0 \<or>
                             domain_examine_rrset_is_singleton h dmn LDNS_RR_TYPE_DNAME \<noteq> 0
                          then 1 else 0);
                 result1 = (if error \<noteq> 0 then error else result);
                 occluded = (if mode = ADAPTER_FILE
                             then zonedata_examine_domain_is_occluded h zd dmn apex
                             else (error, []))
             in examine_loop h zd apex mode (ldns_rbtree_next (domains zd) node) result1
                  (lg @ snd occluded))
          else (result, lg))"
  by pat_completeness auto
termination
  by (relation "measure (\<lambda>(h, zd, apex, mode, node, result, lg).
        case node of None \<Rightarrow> 0 | Some n \<Rightarrow> length (domains zd) - n)")
     (auto simp: ldns_rbtree_next_def split: if_splits)

definition zonedata_examine ::
  "examine_helpers \<Rightarrow> zonedata_type \<Rightarrow> ldns_rdf \<Rightarrow> adapter_mode \<Rightarrow> ods_status \<times> log_entry list" where
  "zonedata_examine h zd apex mode =
     (case examine_loop h zd apex mode
             (if domains zd \<noteq> [] then ldns_rbtree_first (domains zd) else None) 0 [] of
        (result, lg) \<Rightarrow> (if result \<noteq> 0 then ODS_STATUS_ERR else ODS_STATUS_OK, lg))"

text \<open>The three rules that decide the result, and the nodes that the loop visits from a node on.\<close>

definition examine_error :: "examine_helpers \<Rightarrow> domain_type \<Rightarrow> bool" where
  "examine_error h d \<longleftrightarrow>
     domain_examine_rrset_is_alone h d LDNS_RR_TYPE_CNAME \<noteq> 0 \<or>
     domain_examine_rrset_is_singleton h d LDNS_RR_TYPE_CNAME \<noteq> 0 \<or>
     domain_examine_rrset_is_singleton h d LDNS_RR_TYPE_DNAME \<noteq> 0"

definition examine_nodes :: "zonedata_type \<Rightarrow> nat option \<Rightarrow> nat set" where
  "examine_nodes zd node = (case node of None \<Rightarrow> {} | Some n \<Rightarrow> {n..<length (domains zd)})"

subsection \<open>Deleting a domain (lines 425-531)\<close>

text \<open>
  From here on a function returns \<open>None\<close> when the C function has no result: an
  \<^verbatim>\<open>ods_log_assert\<close> fails and the process exits, a pointer is followed to a node that is
  not in its tree any more, or a loop does not end.

  Modelled from the spec: \<^verbatim>\<open>domain_count_rrset\<close> of \<^verbatim>\<open>signer/domain.c\<close>, the number of
  RRsets of the domain.
\<close>

definition domain_count_rrset :: "domain_type \<Rightarrow> nat" where
  "domain_count_rrset d = length (rrsets d)"

text \<open>
  Lines 459-465: the counters of the parent of the deleted domain. The parent is a node
  of the domain tree.
\<close>

definition parent_decrement :: "domain_type list \<Rightarrow> domain_type \<Rightarrow> domain_type list option" where
  "parent_decrement tree dmn =
     (case parent dmn of
        None \<Rightarrow> Some tree
      | Some p \<Rightarrow>
          (case ldns_rbtree_search dname tree p of
             None \<Rightarrow> None
           | Some i \<Rightarrow>
               Some (tree[i := (tree ! i)\<lparr>
                 subdomain_count := subdomain_count (tree ! i) - 1,
                 subdomain_auth :=
                   (if dstatus dmn = DOMAIN_STATUS_AUTH \<or> dstatus dmn = DOMAIN_STATUS_DS
                    then subdomain_auth (tree ! i) - 1 else subdomain_auth (tree ! i))\<rparr>])))"

text \<open>
  \<open>tree\<close> is the tree that the C function is given: the NSEC3 tree when \<open>shadow\<close> holds,
  the domain tree otherwise. The result is the zone data and what the C function
  returns: \<open>None\<close> (\<^verbatim>\<open>NULL\<close>) when the domain is deleted, the domain when it is not found.
\<close>

definition zonedata_del_domain_fixup ::
  "bool \<Rightarrow> domain_type list \<Rightarrow> zonedata_type \<Rightarrow> domain_type \<Rightarrow>
   (zonedata_type \<times> domain_type option) option" where
  "zonedata_del_domain_fixup shadow tree zd dmn =
     (case ldns_rbtree_search dname tree (dname dmn) of
        None \<Rightarrow> Some (zd, Some dmn)
      | Some del_node \<Rightarrow>
          (let prev_node = previous_or_last tree del_node;
               tree1 = tree[prev_node := (tree ! prev_node)\<lparr>nsec_nxt_changed := 1\<rparr>];
               tree2 = ldns_rbtree_delete tree1 del_node;
               zd1 = (if shadow then zd\<lparr>nsec3_domains := Some tree2\<rparr> else zd\<lparr>domains := tree2\<rparr>)
           in case parent_decrement (domains zd1) dmn of
                None \<Rightarrow> None
              | Some ds \<Rightarrow> Some (zd1\<lparr>domains := ds\<rparr>, None)))"

text \<open>
  \<open>k\<close> is \<^verbatim>\<open>domain->nsec3\<close>, the key of the shadow domain. The result of the C function
  selects a log line only and is left out.
\<close>

definition zonedata_del_domain_nsec3 :: "zonedata_type \<Rightarrow> ldns_rdf \<Rightarrow> zonedata_type option" where
  "zonedata_del_domain_nsec3 zd k =
     (case nsec3_domains zd of
        None \<Rightarrow> None
      | Some tree \<Rightarrow>
          (case ldns_rbtree_search dname tree k of
             None \<Rightarrow> Some zd
           | Some i \<Rightarrow> map_option fst (zonedata_del_domain_fixup True tree zd (tree ! i))))"

definition zonedata_del_domain ::
  "zonedata_type \<Rightarrow> domain_type option \<Rightarrow> (zonedata_type \<times> domain_type option) option" where
  "zonedata_del_domain zd dmn =
     (case dmn of
        None \<Rightarrow> Some (zd, None)
      | Some d \<Rightarrow>
          (case (case nsec3 d of
                   None \<Rightarrow> Some zd
                 | Some k \<Rightarrow> zonedata_del_domain_nsec3 zd k) of
             None \<Rightarrow> None
           | Some zd1 \<Rightarrow> zonedata_del_domain_fixup False (domains zd1) zd1 d))"

subsection \<open>Commit (lines 844-904)\<close>

text \<open>
  \<open>domain_commit\<close> is the helper of \<^verbatim>\<open>signer/domain.c\<close>: its status and the domain after
  the commit of its RRsets.
\<close>

function commit_loop ::
  "(domain_type \<Rightarrow> ods_status \<times> domain_type) \<Rightarrow> zonedata_type \<Rightarrow> nat option \<Rightarrow>
   (ods_status \<times> zonedata_type) option" where
  "commit_loop domain_commit zd node =
     (case node of
        None \<Rightarrow> Some (ODS_STATUS_OK, zd)
      | Some n \<Rightarrow>
          if n < length (domains zd) then
            (case domain_commit (domains zd ! n) of
               (status, dmn) \<Rightarrow>
                 (let zd1 = zd\<lparr>domains := (domains zd)[n := dmn]\<rparr> in
                  if status \<noteq> ODS_STATUS_OK then Some (status, zd1)
                  else
                    (let tmpnode = node;
                         node1 = ldns_rbtree_previous node
                     in if domain_count_rrset dmn \<le> 0 then
                          (let nxtnode = ldns_rbtree_next (domains zd1) tmpnode;
                               nxtdomain = map_option (\<lambda>i. domains zd1 ! i) nxtnode
                           in if (case nxtdomain of
                                    None \<Rightarrow> True
                                  | Some nd \<Rightarrow> \<not> ldns_dname_is_subdomain (dname nd) (dname dmn))
                              then
                                (case zonedata_del_domain zd1 (Some dmn) of
                                   None \<Rightarrow> None
                                 | Some (zd2, Some d) \<Rightarrow> Some (ODS_STATUS_ERR, zd2)
                                 | Some (zd2, None) \<Rightarrow> commit_loop domain_commit zd2 node1)
                              else commit_loop domain_commit zd1 node1)
                        else commit_loop domain_commit zd1 node1)))
          else None)"
  by pat_completeness auto
termination
  by (relation "measure (\<lambda>(c, zd, node). case node of None \<Rightarrow> 0 | Some n \<Rightarrow> Suc n)")
     (auto simp: ldns_rbtree_previous_def split: if_splits)

definition zonedata_commit ::
  "(domain_type \<Rightarrow> ods_status \<times> domain_type) \<Rightarrow> zonedata_type \<Rightarrow>
   (ods_status \<times> zonedata_type) option" where
  "zonedata_commit domain_commit zd =
     commit_loop domain_commit zd
       (if domains zd \<noteq> [] then ldns_rbtree_last (domains zd) else None)"

text \<open>
  Modelled from the spec: the commit of an RRset (section 4.2 of the spec) and of a
  domain, for the examples: the pending deletions leave the committed set, the pending
  additions join it, and an RRset that ends empty leaves the domain.
\<close>

definition rrset_commit_spec :: "rrset_type \<Rightarrow> rrset_type" where
  "rrset_commit_spec r =
     r\<lparr>committed := filter (\<lambda>x. x \<notin> set (pending_del r)) (committed r) @ pending_add r,
       pending_add := [], pending_del := []\<rparr>"

definition domain_commit_spec :: "domain_type \<Rightarrow> ods_status \<times> domain_type" where
  "domain_commit_spec d =
     (ODS_STATUS_OK,
      d\<lparr>rrsets := filter (\<lambda>r. committed r \<noteq> []) (map rrset_commit_spec (rrsets d))\<rparr>)"

text \<open>
  For the properties of the commit: the name and the RRsets of every node, the trees
  without an empty leaf from a node on, the trees with one node per key, and the test
  of lines 878-884.
\<close>

definition shape :: "domain_type list \<Rightarrow> (ldns_rdf \<times> rrset_type list) list" where
  "shape ds = map (\<lambda>d. (dname d, rrsets d)) ds"

definition leaf_free :: "(ldns_rdf \<times> rrset_type list) list \<Rightarrow> nat \<Rightarrow> bool" where
  "leaf_free sh n \<longleftrightarrow>
     (\<forall>j. n \<le> j \<and> j < length sh \<and> snd (sh ! j) = [] \<longrightarrow>
        Suc j < length sh \<and> ldns_dname_is_subdomain (fst (sh ! Suc j)) (fst (sh ! j)))"

definition keys_distinct :: "(ldns_rdf \<times> rrset_type list) list \<Rightarrow> bool" where
  "keys_distinct sh \<longleftrightarrow>
     (\<forall>i j. i < j \<and> j < length sh \<longrightarrow> domain_compare (fst (sh ! i)) (fst (sh ! j)) \<noteq> 0)"

definition leaf_cond :: "zonedata_type \<Rightarrow> nat \<Rightarrow> domain_type \<Rightarrow> bool" where
  "leaf_cond zd1 n dmn \<longleftrightarrow>
     (case map_option (\<lambda>i. domains zd1 ! i) (ldns_rbtree_next (domains zd1) (Some n)) of
        None \<Rightarrow> True
      | Some nd \<Rightarrow> \<not> ldns_dname_is_subdomain (dname nd) (dname dmn))"

subsection \<open>Update (lines 1584-1658)\<close>

text \<open>
  The loop of lines 1645-1654 up the parents of an obsolete domain. \<open>p\<close> is the variable
  \<^verbatim>\<open>parent\<close>, a pointer to a node of the domain tree.
\<close>

partial_function (option) update_parents ::
  "zonedata_type \<Rightarrow> ldns_rdf option \<Rightarrow> zonedata_type option" where
  "update_parents zd p =
     (case p of
        None \<Rightarrow> Some zd
      | Some k \<Rightarrow>
          (case ldns_rbtree_search dname (domains zd) k of
             None \<Rightarrow> None
           | Some i \<Rightarrow>
               if domain_count_rrset (domains zd ! i) \<le> 0 then
                 (let dmn = domains zd ! i;
                      p1 = parent dmn
                  in if subdomain_count dmn \<le> 0 then
                       (case zonedata_del_domain zd (Some dmn) of
                          None \<Rightarrow> None
                        | Some (zd1, r) \<Rightarrow> update_parents zd1 p1)
                     else update_parents zd p1)
               else Some zd))"

text \<open>Lines 1636-1654, for a domain that is left without RRsets and is no empty non-terminal.\<close>

definition update_obsolete :: "zonedata_type \<Rightarrow> domain_type \<Rightarrow> zonedata_type option" where
  "update_obsolete zd dmn =
     (let p = parent dmn in
      case (if subdomain_count dmn \<le> 0
            then map_option fst (zonedata_del_domain zd (Some dmn)) else Some zd) of
        None \<Rightarrow> None
      | Some zd1 \<Rightarrow> update_parents zd1 p)"

text \<open>
  The loop of lines 1610-1656. \<open>domain_commit\<close> is the helper of \<^verbatim>\<open>signer/domain.c\<close> with
  its status as the \<^verbatim>\<open>int\<close> that the function stores it in and tests against 0 and 1;
  \<open>domain_rollback\<close> is the helper that \<^verbatim>\<open>zonedata_rollback\<close> calls. The pointer to the next
  node is taken before the deletions; it is kept as the key of that node while nodes are
  deleted.
\<close>

partial_function (option) update_loop ::
  "(domain_type \<Rightarrow> int \<times> domain_type) \<Rightarrow> (domain_type \<Rightarrow> domain_type) \<Rightarrow> zonedata_type \<Rightarrow>
   nat option \<Rightarrow> (int \<times> zonedata_type) option" where
  "update_loop domain_commit domain_rollback zd node =
     (case node of
        None \<Rightarrow> Some (0, zd)
      | Some n \<Rightarrow>
          if n < length (domains zd) then
            (case domain_commit (domains zd ! n) of
               (error, dmn) \<Rightarrow>
                 (let zd1 = zd\<lparr>domains := (domains zd)[n := dmn]\<rparr> in
                  if error \<noteq> 0 then
                    (if error = 1 then Some (1, zd1)
                     else Some (1, zonedata_rollback domain_rollback zd1))
                  else
                    (let nxt = map_option (\<lambda>i. dname (domains zd1 ! i))
                                 (ldns_rbtree_next (domains zd1) node)
                     in case (if domain_count_rrset dmn \<le> 0 \<and>
                                 dstatus dmn \<noteq> DOMAIN_STATUS_ENT_AUTH \<and>
                                 dstatus dmn \<noteq> DOMAIN_STATUS_ENT_NS \<and>
                                 dstatus dmn \<noteq> DOMAIN_STATUS_ENT_GLUE
                              then update_obsolete zd1 dmn else Some zd1) of
                          None \<Rightarrow> None
                        | Some zd2 \<Rightarrow>
                            (case nxt of
                               None \<Rightarrow> Some (0, zd2)
                             | Some k \<Rightarrow>
                                 (case ldns_rbtree_search dname (domains zd2) k of
                                    None \<Rightarrow> None
                                  | Some n1 \<Rightarrow>
                                      update_loop domain_commit domain_rollback zd2 (Some n1))))))
          else None)"

definition zonedata_update ::
  "uint32_t \<Rightarrow> uint32_t \<Rightarrow> (domain_type \<Rightarrow> int \<times> domain_type) \<Rightarrow> (domain_type \<Rightarrow> domain_type) \<Rightarrow>
   zonedata_type \<Rightarrow> signconf_type \<Rightarrow> (int \<times> zonedata_type) option" where
  "zonedata_update now datestamp domain_commit domain_rollback zd sc =
     (case zonedata_update_serial now datestamp zd sc of
        (error, zd1) \<Rightarrow>
          if error \<noteq> 0 \<or> internal_serial zd1 = 0
          then Some (1, zonedata_rollback domain_rollback zd1)
          else update_loop domain_commit domain_rollback zd1
                 (if domains zd1 \<noteq> [] then ldns_rbtree_first (domains zd1) else None))"

text \<open>
  A round of that loop after the commit of the domain of the node \<open>n\<close> has succeeded, lines
  1626-1655, on the zone data with the committed domain: the step to the next node and the
  deletion of the domain when it is obsolete. The result is the zone data and the next
  node.
\<close>

definition update_advance :: "zonedata_type \<Rightarrow> nat \<Rightarrow> (zonedata_type \<times> nat option) option" where
  "update_advance zd1 n =
     (let dmn = domains zd1 ! n;
          nxt = map_option (\<lambda>i. dname (domains zd1 ! i)) (ldns_rbtree_next (domains zd1) (Some n))
      in case (if domain_count_rrset dmn \<le> 0 \<and>
                  dstatus dmn \<noteq> DOMAIN_STATUS_ENT_AUTH \<and>
                  dstatus dmn \<noteq> DOMAIN_STATUS_ENT_NS \<and>
                  dstatus dmn \<noteq> DOMAIN_STATUS_ENT_GLUE
               then update_obsolete zd1 dmn else Some zd1) of
           None \<Rightarrow> None
         | Some zd2 \<Rightarrow>
             (case nxt of
                None \<Rightarrow> Some (zd2, None)
              | Some k \<Rightarrow>
                  (case ldns_rbtree_search dname (domains zd2) k of
                     None \<Rightarrow> None
                   | Some n1 \<Rightarrow> Some (zd2, Some n1))))"

text \<open>
  The state of the loop, the zone data and the node, after \<open>k\<close> rounds from the given
  state in each of which the commit of the domain succeeded.
\<close>

fun update_run ::
  "(domain_type \<Rightarrow> int \<times> domain_type) \<Rightarrow> nat \<Rightarrow> zonedata_type \<Rightarrow> nat option \<Rightarrow>
   (zonedata_type \<times> nat option) option" where
  "update_run domain_commit 0 zd node = Some (zd, node)"
| "update_run domain_commit (Suc k) zd node =
     (case node of
        None \<Rightarrow> None
      | Some n \<Rightarrow>
          if n < length (domains zd) then
            (case domain_commit (domains zd ! n) of
               (error, dmn) \<Rightarrow>
                 if error \<noteq> 0 then None
                 else
                   (case update_advance (zd\<lparr>domains := (domains zd)[n := dmn]\<rparr>) n of
                      None \<Rightarrow> None
                    | Some (zd2, node1) \<Rightarrow> update_run domain_commit k zd2 node1))
          else None)"

subsection \<open>NSEC records (lines 1106-1164)\<close>

text \<open>Lines 1129-1131 and 1148-1150: the domains that get no NSEC and are no next name.\<close>

definition nsecify_skip :: "domain_type \<Rightarrow> bool" where
  "nsecify_skip d \<longleftrightarrow>
     dstatus d = DOMAIN_STATUS_NONE \<or> dstatus d = DOMAIN_STATUS_OCCLUDED \<or>
     domain_count_rrset d \<le> 0"

text \<open>
  The loop of lines 1137-1155. \<open>apex\<close> and the result \<open>to\<close> are pointers to nodes of the
  tree, which this function does not change. The result is \<open>Inl\<close> with the status when
  the function returns from inside the loop, and \<open>Inr\<close> with \<open>node\<close> and \<open>to\<close> otherwise.
  There is no result, \<open>None\<close>, when the loop does not end.
\<close>

partial_function (option) nsecify_next ::
  "domain_type list \<Rightarrow> nat option \<Rightarrow> nat option \<Rightarrow> (ods_status + nat option \<times> nat) option" where
  "nsecify_next tree apex node =
     (case (case node of Some n \<Rightarrow> Some n | None \<Rightarrow> apex) of
        None \<Rightarrow> Some (Inl ODS_STATUS_ERR)
      | Some to \<Rightarrow>
          if to < length tree then
            (if nsecify_skip (tree ! to)
             then nsecify_next tree apex (ldns_rbtree_next tree node)
             else Some (Inr (node, to)))
          else None)"

text \<open>
  The loop of lines 1123-1162. \<open>domain_nsecify\<close> is the helper of \<^verbatim>\<open>signer/domain.c\<close>: from
  the domain, the next domain, the TTL, the class and the statistics to its result, the
  domain and the statistics.
\<close>

partial_function (option) nsecify_loop ::
  "(domain_type \<Rightarrow> domain_type \<Rightarrow> uint32_t \<Rightarrow> ldns_rr_class \<Rightarrow> 's \<Rightarrow> int \<times> domain_type \<times> 's) \<Rightarrow>
   zonedata_type \<Rightarrow> ldns_rr_class \<Rightarrow> 's \<Rightarrow> nat option \<Rightarrow> nat option \<Rightarrow>
   (ods_status \<times> zonedata_type \<times> 's) option" where
  "nsecify_loop domain_nsecify zd klass stats apex node =
     (case node of
        None \<Rightarrow> Some (ODS_STATUS_OK, zd, stats)
      | Some n \<Rightarrow>
          if n < length (domains zd) then
            (let dmn = domains zd ! n;
                 apex1 = (if dstatus dmn = DOMAIN_STATUS_APEX then Some n else apex)
             in if nsecify_skip dmn
                then nsecify_loop domain_nsecify zd klass stats apex1
                       (ldns_rbtree_next (domains zd) node)
                else
                  (case nsecify_next (domains zd) apex1 (ldns_rbtree_next (domains zd) node) of
                     None \<Rightarrow> None
                   | Some (Inl status) \<Rightarrow> Some (status, zd, stats)
                   | Some (Inr (node1, to)) \<Rightarrow>
                       (case domain_nsecify dmn (domains zd ! to) (default_ttl zd) klass stats of
                          (r, dmn1, stats1) \<Rightarrow>
                            (let zd1 = zd\<lparr>domains := (domains zd)[n := dmn1]\<rparr> in
                             if r \<noteq> 0 then Some (ODS_STATUS_ERR, zd1, stats1)
                             else nsecify_loop domain_nsecify zd1 klass stats1 apex1 node1))))
          else None)"

definition zonedata_nsecify ::
  "(domain_type \<Rightarrow> domain_type \<Rightarrow> uint32_t \<Rightarrow> ldns_rr_class \<Rightarrow> 's \<Rightarrow> int \<times> domain_type \<times> 's) \<Rightarrow>
   zonedata_type \<Rightarrow> ldns_rr_class \<Rightarrow> 's \<Rightarrow> (ods_status \<times> zonedata_type \<times> 's) option" where
  "zonedata_nsecify domain_nsecify zd klass stats =
     nsecify_loop domain_nsecify zd klass stats None (ldns_rbtree_first (domains zd))"

text \<open>
  Modelled from the spec: \<^verbatim>\<open>domain_nsecify\<close> as section 4.3.5 of the spec describes it, for
  the examples: the domain gets the NSEC that points to the name of the next domain, with
  the given TTL and class and the types of its RRsets, NSEC and RRSIG; the statistics
  count the NSECs.
\<close>

definition domain_nsecify_spec ::
  "domain_type \<Rightarrow> domain_type \<Rightarrow> uint32_t \<Rightarrow> ldns_rr_class \<Rightarrow> nat \<Rightarrow> int \<times> domain_type \<times> nat" where
  "domain_nsecify_spec d to ttl klass stats =
     (0,
      d\<lparr>nsec_rrset := Some \<lparr>nsec_next = dname to, nsec_ttl = ttl, nsec_class = klass,
             nsec_types = map rrset_rr_type (rrsets d) @ [46, 47]\<rparr>,
        nsec_bitmap_changed := 0, nsec_nxt_changed := 0\<rparr>,
      Suc stats)"

subsection \<open>The NSEC chain\<close>

text \<open>What \<^verbatim>\<open>zonedata_nsecify\<close> reads of a domain: the name, the status and the RRsets.\<close>

type_synonym core = "ldns_rdf \<times> domain_status \<times> rrset_type list"

definition core :: "domain_type \<Rightarrow> core" where
  "core d = (dname d, dstatus d, rrsets d)"

text \<open>
  What \<^verbatim>\<open>zonedata_nsecify\<close> needs of \<^verbatim>\<open>domain_nsecify\<close>: it returns 0, keeps the name, the
  status and the RRsets of the domain, and leaves at the domain an NSEC whose next name is
  the name of the domain it was given as the next one.
\<close>

definition nsecify_ok ::
  "(domain_type \<Rightarrow> domain_type \<Rightarrow> uint32_t \<Rightarrow> ldns_rr_class \<Rightarrow> 's \<Rightarrow> int \<times> domain_type \<times> 's) \<Rightarrow> bool" where
  "nsecify_ok N \<longleftrightarrow>
     (\<forall>d to ttl k s. fst (N d to ttl k s) = 0 \<and>
        dname (fst (snd (N d to ttl k s))) = dname d \<and>
        dstatus (fst (snd (N d to ttl k s))) = dstatus d \<and>
        rrsets (fst (snd (N d to ttl k s))) = rrsets d \<and>
        map_option nsec_next (nsec_rrset (fst (snd (N d to ttl k s)))) = Some (dname to))"

text \<open>
  A node of the tree is retained when it gets an NSEC, and is an apex when its domain has
  the status \<open>DOMAIN_STATUS_APEX\<close>.
\<close>

definition retained :: "domain_type list \<Rightarrow> nat \<Rightarrow> bool" where
  "retained ds j \<longleftrightarrow> j < length ds \<and> \<not> nsecify_skip (ds ! j)"

definition is_apex :: "domain_type list \<Rightarrow> nat \<Rightarrow> bool" where
  "is_apex ds j \<longleftrightarrow> j < length ds \<and> dstatus (ds ! j) = DOMAIN_STATUS_APEX"

text \<open>
  The domain \<open>t\<close> is the one that the NSEC of the retained domain \<open>i\<close> has to name: the next
  retained domain of the tree or, when no retained domain follows, the last apex of the
  tree.
\<close>

definition nsec_target :: "domain_type list \<Rightarrow> nat \<Rightarrow> nat \<Rightarrow> bool" where
  "nsec_target ds i t \<longleftrightarrow>
     retained ds t \<and>
     ((i < t \<and> (\<forall>j. i < j \<and> j < t \<longrightarrow> \<not> retained ds j)) \<or>
      ((\<forall>j. i < j \<longrightarrow> \<not> retained ds j) \<and> is_apex ds t \<and> (\<forall>j. t < j \<longrightarrow> \<not> is_apex ds j)))"

text \<open>
  The tree \<open>ds'\<close> holds the domains of \<open>ds\<close> with the NSEC chain: names, statuses and
  RRsets are those of \<open>ds\<close>, a domain that is not retained is as it was, and the NSEC of
  a retained domain names its target.
\<close>

definition nsec_chain :: "domain_type list \<Rightarrow> domain_type list \<Rightarrow> bool" where
  "nsec_chain ds ds' \<longleftrightarrow>
     map core ds' = map core ds \<and>
     (\<forall>i. i < length ds \<and> \<not> retained ds i \<longrightarrow> ds' ! i = ds ! i) \<and>
     (\<forall>i. retained ds i \<longrightarrow>
        (\<exists>t. nsec_target ds i t \<and>
             map_option nsec_next (nsec_rrset (ds' ! i)) = Some (dname (ds ! t))))"

text \<open>
  The result of the inner loop, for the proofs: \<open>to\<close> is a retained node, and it is the
  first one from \<open>node\<close> on, or the loop ran off the tree and \<open>to\<close> is the apex.
\<close>

definition next_spec ::
  "domain_type list \<Rightarrow> nat option \<Rightarrow> nat option \<Rightarrow> (ods_status + nat option \<times> nat) \<Rightarrow> bool" where
  "next_spec tree apex node y \<longleftrightarrow>
     (case y of
        Inl e \<Rightarrow> True
      | Inr (node1, to) \<Rightarrow>
          to < length tree \<and> \<not> nsecify_skip (tree ! to) \<and>
          ((\<exists>m. node = Some m \<and> node1 = Some to \<and> m \<le> to \<and>
                (\<forall>j. m \<le> j \<and> j < to \<longrightarrow> nsecify_skip (tree ! j))) \<or>
           (node1 = None \<and> apex = Some to \<and>
            (\<forall>m j. node = Some m \<and> m \<le> j \<and> j < length tree \<longrightarrow> nsecify_skip (tree ! j)))))"

text \<open>
  The invariant of the outer loop at the node \<open>n\<close> with the apex seen so far, for the
  proofs: what holds before the loop goes on (\<open>loop_pre\<close>) and what the remaining rounds
  make of the tree (\<open>loop_post\<close>). The wrap goes to the last apex from \<open>n\<close> on or, when
  none follows, to the apex seen so far.
\<close>

definition wrap_ok :: "domain_type list \<Rightarrow> nat option \<Rightarrow> nat \<Rightarrow> nat \<Rightarrow> bool" where
  "wrap_ok ds apex n t \<longleftrightarrow>
     (n \<le> t \<and> is_apex ds t \<and> (\<forall>j. t < j \<and> retained ds j \<longrightarrow> \<not> is_apex ds j)) \<or>
     (apex = Some t \<and> (\<forall>j. n \<le> j \<and> retained ds j \<longrightarrow> \<not> is_apex ds j))"

definition target_ok :: "domain_type list \<Rightarrow> nat option \<Rightarrow> nat \<Rightarrow> nat \<Rightarrow> nat \<Rightarrow> bool" where
  "target_ok ds apex n i t \<longleftrightarrow>
     retained ds t \<and>
     ((i < t \<and> (\<forall>j. i < j \<and> j < t \<longrightarrow> \<not> retained ds j)) \<or>
      ((\<forall>j. i < j \<longrightarrow> \<not> retained ds j) \<and> wrap_ok ds apex n t))"

definition loop_post :: "domain_type list \<Rightarrow> nat option \<Rightarrow> nat \<Rightarrow> domain_type list \<Rightarrow> bool" where
  "loop_post ds apex n ds' \<longleftrightarrow>
     map core ds' = map core ds \<and>
     (\<forall>i. i < length ds \<and> (i < n \<or> \<not> retained ds i) \<longrightarrow> ds' ! i = ds ! i) \<and>
     (\<forall>i. n \<le> i \<and> retained ds i \<longrightarrow>
        (\<exists>t. target_ok ds apex n i t \<and>
             map_option nsec_next (nsec_rrset (ds' ! i)) = Some (dname (ds ! t))))"

definition loop_pre :: "domain_type list \<Rightarrow> nat option \<Rightarrow> nat \<Rightarrow> bool" where
  "loop_pre ds apex n \<longleftrightarrow>
     (\<forall>a. apex = Some a \<longrightarrow> retained ds a) \<and>
     (\<forall>j. is_apex ds j \<longrightarrow> retained ds j) \<and>
     (apex \<noteq> None \<or> (\<exists>j. n \<le> j \<and> is_apex ds j) \<or> (\<forall>j. n \<le> j \<longrightarrow> \<not> retained ds j))"

subsection \<open>Example zone data\<close>

definition zd_s4 :: zonedata_type where
  "zd_s4 = \<lparr>domains = [], denial_chain = [], nsec3_domains = None, initialized = 1,
     default_ttl = 3600, inbound_serial = 90, internal_serial = 100, outbound_serial = 0\<rparr>"

definition example_apex :: ldns_rdf where
  "example_apex = [''example'']"

definition mk_rrset :: "ldns_rr_type \<Rightarrow> string list list \<Rightarrow> rrset_type" where
  "mk_rrset t rs = \<lparr>rrset_rr_type = t, committed = rs, pending_add = [], pending_del = []\<rparr>"

definition mk_domain :: "ldns_rdf \<Rightarrow> domain_status \<Rightarrow> rrset_type list \<Rightarrow> domain_type" where
  "mk_domain dn st rs = \<lparr>dname = dn, parent = None, denial = None, nsec3 = None, rrsets = rs,
     dstatus = st, subdomain_count = 0, subdomain_auth = 0, nsec_bitmap_changed = 0,
     nsec_nxt_changed = 0, nsec_rrset = None\<rparr>"

definition d_mail :: domain_type where
  "d_mail = mk_domain [''mail'', ''example''] DOMAIN_STATUS_AUTH [mk_rrset 1 [[''192.0.2.2'']]]"

definition d_www :: domain_type where
  "d_www = mk_domain [''www'', ''example''] DOMAIN_STATUS_AUTH [mk_rrset 1 [[''192.0.2.1'']]]"

text \<open>A stand-in for the NSEC3 hash under which all names collide, and one that fails.\<close>

definition hash_collide :: nsec3_hash where
  "hash_collide dn alg it sl sd = Some [''h0'']"

definition hash_fail :: nsec3_hash where
  "hash_fail dn alg it sl sd = None"

definition example_nsec3params :: nsec3params_type where
  "example_nsec3params = \<lparr>algorithm = 1, flags = 0, iterations = 0, salt_len = 1, salt_data = [170]\<rparr>"

definition zd_denials :: zonedata_type where
  "zd_denials = \<lparr>domains = [],
     denial_chain = [denial_create [''example''], denial_create [''www'', ''example'']],
     nsec3_domains = None, initialized = 0,
     default_ttl = 3600, inbound_serial = 0, internal_serial = 0, outbound_serial = 0\<rparr>"

definition zd_denials_mail :: zonedata_type where
  "zd_denials_mail = zd_denials\<lparr>denial_chain :=
     [(denial_create [''example''])\<lparr>nxt_changed := 1\<rparr>,
      (denial_create [''mail'', ''example''])\<lparr>domain := Some [''mail'', ''example''],
         bitmap_changed := 1, nxt_changed := 1\<rparr>,
      denial_create [''www'', ''example'']]\<rparr>"

definition zd_denials3 :: zonedata_type where
  "zd_denials3 = zd_denials\<lparr>denial_chain := [denial_create [''h0'', ''example'']]\<rparr>"

text \<open>
  Modelled from the spec: stand-ins for the examination helpers of \<^verbatim>\<open>signer/domain.c\<close>,
  after section 4.3.3 of the spec, for the examples. A helper returns 0 when its check
  passes (\<open>domain_examine_data_exists\<close>: when data exists).
\<close>

definition has_rrset :: "domain_type \<Rightarrow> ldns_rr_type \<Rightarrow> bool" where
  "has_rrset d t = (\<exists>r\<in>set (rrsets d). rrset_rr_type r = t)"

definition example_helpers :: examine_helpers where
  "example_helpers = \<lparr>
     domain_examine_rrset_is_alone = (\<lambda>d t.
        if has_rrset d t \<and> (\<exists>r\<in>set (rrsets d). rrset_rr_type r \<noteq> t) then 1 else 0),
     domain_examine_rrset_is_singleton = (\<lambda>d t.
        if (\<exists>r\<in>set (rrsets d). rrset_rr_type r = t \<and> 1 < length (committed r @ pending_add r))
        then 1 else 0),
     domain_examine_valid_zonecut = (\<lambda>d.
        if has_rrset d LDNS_RR_TYPE_NS \<and>
           (\<exists>r\<in>set (rrsets d). rrset_rr_type r \<notin> {LDNS_RR_TYPE_NS, 43, 1, 28}) then 1 else 0),
     domain_examine_data_exists = (\<lambda>d t skip_glue.
        if (\<exists>r\<in>set (rrsets d). (t = 0 \<or> rrset_rr_type r = t) \<and>
              (skip_glue = 0 \<or> rrset_rr_type r \<notin> {1, 28})) then 0 else 1),
     domain_examine_ns_rdata = (\<lambda>d n. 1)\<rparr>"

definition d_apex :: domain_type where
  "d_apex = mk_domain [''example''] DOMAIN_STATUS_APEX
     [mk_rrset 6 [[''ns1.example.'', ''1'']], mk_rrset 2 [[''ns1.example.'']]]"

definition d_sub :: domain_type where
  "d_sub = mk_domain [''sub'', ''example''] DOMAIN_STATUS_NS [mk_rrset 2 [[''ns.sub.example.'']]]"

definition d_below :: domain_type where
  "d_below = mk_domain [''txt'', ''sub'', ''example''] DOMAIN_STATUS_OCCLUDED
     [mk_rrset 16 [[''hello'']]]"

definition d_alias :: domain_type where
  "d_alias = mk_domain [''alias'', ''example''] DOMAIN_STATUS_AUTH
     [mk_rrset 5 [[''www.example.'']], mk_rrset 1 [[''192.0.2.3'']]]"

definition mk_zonedata :: "domain_type list \<Rightarrow> zonedata_type" where
  "mk_zonedata ds = \<lparr>domains = ds, denial_chain = [], nsec3_domains = None, initialized = 1,
     default_ttl = 3600, inbound_serial = 1, internal_serial = 1, outbound_serial = 1\<rparr>"

definition zd_occluded :: zonedata_type where
  "zd_occluded = mk_zonedata [d_apex, d_sub, d_below]"

definition zd_alias :: zonedata_type where
  "zd_alias = mk_zonedata [d_apex, d_alias]"

definition d_www_pending :: domain_type where
  "d_www_pending = d_www\<lparr>rrsets := [\<lparr>rrset_rr_type = 1, committed = [[''192.0.2.1'']],
     pending_add = [[''192.0.2.9'']], pending_del = [[''192.0.2.1'']]\<rparr>]\<rparr>"

definition zd_pending :: zonedata_type where
  "zd_pending = mk_zonedata [d_apex, d_www_pending]"

definition rr_ftp :: ldns_rr where
  "rr_ftp = \<lparr>rr_owner = [''ftp'', ''example''], rr_type = 1, rr_class = 1, rr_ttl = 3600,
     rr_rdata = [''192.0.2.4'']\<rparr>"

definition d_b_del :: domain_type where
  "d_b_del = mk_domain [''b'', ''example''] DOMAIN_STATUS_NONE
     [\<lparr>rrset_rr_type = 1, committed = [[''192.0.2.5'']], pending_add = [],
       pending_del = [[''192.0.2.5'']]\<rparr>]"

definition d_a_b :: domain_type where
  "d_a_b = mk_domain [''a'', ''b'', ''example''] DOMAIN_STATUS_NONE [mk_rrset 1 [[''192.0.2.6'']]]"

definition d_apex_soa :: domain_type where
  "d_apex_soa = mk_domain [''example''] DOMAIN_STATUS_APEX [mk_rrset 6 [[''ns1.example.'', ''1'']]]"

text \<open>
  The zone data after \<^verbatim>\<open>zonedata_add_rr\<close> of an SOA at the apex and of an address at
  \<^verbatim>\<open>b.example.\<close> and at \<^verbatim>\<open>a.b.example.\<close>, a commit, and the deletion of the address at
  \<^verbatim>\<open>b.example.\<close>: no parent is set and no subdomain is counted before \<^verbatim>\<open>zonedata_entize\<close>.
\<close>

definition zd_b_del :: zonedata_type where
  "zd_b_del = mk_zonedata [d_apex_soa, d_b_del, d_a_b]"

definition zd_b_committed :: zonedata_type where
  "zd_b_committed = mk_zonedata [d_apex_soa, d_b_del\<lparr>rrsets := []\<rparr>, d_a_b]"

definition d_www_del :: domain_type where
  "d_www_del = d_www\<lparr>rrsets := [\<lparr>rrset_rr_type = 1, committed = [[''192.0.2.1'']],
     pending_add = [], pending_del = [[''192.0.2.1'']]\<rparr>]\<rparr>"

definition zd_www_del :: zonedata_type where
  "zd_www_del = mk_zonedata [d_apex, d_mail, d_www_del]"

definition zd_www_gone :: zonedata_type where
  "zd_www_gone = mk_zonedata [d_apex, d_mail\<lparr>nsec_nxt_changed := 1\<rparr>]"

text \<open>A commit of a domain that fails with the status 1.\<close>

definition commit_compare_fails :: "domain_type \<Rightarrow> int \<times> domain_type" where
  "commit_compare_fails d = (1, d)"

text \<open>
  A commit that fails with the given status at the domain of the given name, and is the
  commit of the spec at every other domain; and a zone with pending changes at two names.
\<close>

definition commit_fails_at :: "ldns_rdf \<Rightarrow> int \<Rightarrow> domain_type \<Rightarrow> int \<times> domain_type" where
  "commit_fails_at name e d =
     (if dname d = name then (e, d) else (0, snd (domain_commit_spec d)))"

definition d_mail_pending :: domain_type where
  "d_mail_pending = d_mail\<lparr>rrsets := [\<lparr>rrset_rr_type = 1, committed = [[''192.0.2.2'']],
     pending_add = [[''192.0.2.8'']], pending_del = [[''192.0.2.2'']]\<rparr>]\<rparr>"

definition d_mail_committed :: domain_type where
  "d_mail_committed = d_mail\<lparr>rrsets := [mk_rrset 1 [[''192.0.2.8'']]]\<rparr>"

definition zd_two_pending :: zonedata_type where
  "zd_two_pending = mk_zonedata [d_apex, d_mail_pending, d_www_pending]"

definition sc_keep :: signconf_type where
  "sc_keep = \<lparr>soa_serial = Some ''keep''\<rparr>"

definition sc_unixtime :: signconf_type where
  "sc_unixtime = \<lparr>soa_serial = Some ''unixtime''\<rparr>"

text \<open>
  The zone of section 4.3.5 of the spec before and after \<^verbatim>\<open>zonedata_nsecify\<close>; a zone whose
  apex has no RRset; and a tree with a name that sorts before such an apex.
\<close>

definition zd_plain :: zonedata_type where
  "zd_plain = mk_zonedata [d_apex, d_mail, d_www]"

definition zd_plain_nsec :: zonedata_type where
  "zd_plain_nsec = mk_zonedata
     [d_apex\<lparr>nsec_rrset := Some \<lparr>nsec_next = [''mail'', ''example''], nsec_ttl = 3600,
         nsec_class = 1, nsec_types = [6, 2, 46, 47]\<rparr>\<rparr>,
      d_mail\<lparr>nsec_rrset := Some \<lparr>nsec_next = [''www'', ''example''], nsec_ttl = 3600,
         nsec_class = 1, nsec_types = [1, 46, 47]\<rparr>\<rparr>,
      d_www\<lparr>nsec_rrset := Some \<lparr>nsec_next = [''example''], nsec_ttl = 3600,
         nsec_class = 1, nsec_types = [1, 46, 47]\<rparr>\<rparr>]"

definition d_apex_empty :: domain_type where
  "d_apex_empty = mk_domain [''example''] DOMAIN_STATUS_APEX []"

definition zd_apex_empty :: zonedata_type where
  "zd_apex_empty = mk_zonedata [d_apex_empty, d_www]"

definition d_a :: domain_type where
  "d_a = mk_domain [''a''] DOMAIN_STATUS_AUTH [mk_rrset 1 [[''192.0.2.7'']]]"

definition zd_apex_last :: zonedata_type where
  "zd_apex_last = mk_zonedata [d_a, d_apex_empty]"

section \<open>Properties\<close>

subsection \<open>The serial\<close>

lemma keep_prefix:
  "take 4 s = ''keep'' \<Longrightarrow>
     s \<noteq> ''unixtime'' \<and> take 7 s \<noteq> ''counter'' \<and> take 11 s \<noteq> ''datecounter''"
  by (cases s) auto

text \<open>
  Claim C3. Under the policy \<open>keep\<close>, on initialized zone data: when the inbound serial
  is not greater (RFC 1982) than the internal serial, \<open>zonedata_update_serial\<close> returns 1
  and the zone data is as before; otherwise it returns 0 and the internal serial is the
  inbound serial.
\<close>

theorem update_serial_keep:
  assumes "soa_serial sc = Some s" and "take 4 s = ''keep''" and "initialized zd \<noteq> 0"
  shows "zonedata_update_serial now datestamp zd sc =
     (if DNS_SERIAL_GT (inbound_serial zd) (internal_serial zd)
      then (0, zd\<lparr>internal_serial := inbound_serial zd\<rparr>) else (1, zd))"
  using assms keep_prefix[of s]
  by (simp add: zonedata_update_serial_def serial_store_def Let_def)

theorem update_serial_keep_witness:
  "soa_serial \<lparr>soa_serial = Some ''keep''\<rparr> = Some ''keep'' \<and> take 4 ''keep'' = ''keep'' \<and>
   initialized zd_s4 \<noteq> 0 \<and>
   zonedata_update_serial 0 0 zd_s4 \<lparr>soa_serial = Some ''keep''\<rparr> = (1, zd_s4) \<and>
   zonedata_update_serial 0 0 (zd_s4\<lparr>inbound_serial := 110\<rparr>) \<lparr>soa_serial = Some ''keep''\<rparr>
     = (0, zd_s4\<lparr>inbound_serial := 110, internal_serial := 110\<rparr>)"
  using update_serial_keep[of "\<lparr>soa_serial = Some ''keep''\<rparr>" "''keep''" zd_s4 0 0]
    update_serial_keep[of "\<lparr>soa_serial = Some ''keep''\<rparr>" "''keep''"
      "zd_s4\<lparr>inbound_serial := 110\<rparr>" 0 0]
  by (simp add: zd_s4_def DNS_SERIAL_GT_def)

lemma clamp_le:
  "unat (if delta \<le> (0x7FFFFFFF :: uint32_t) then delta else 0x7FFFFFFF) \<le> 0x7FFFFFFF"
  by (simp add: word_le_nat_alt)

lemma serial_store_eq:
  "serial_store zd prev update =
     (0, zd\<lparr>initialized := (if initialized zd = 0 then 1 else initialized zd),
             internal_serial := prev + (if update \<le> 0x7FFFFFFF then update else 0x7FFFFFFF)\<rparr>)"
  by (simp add: serial_store_def Let_def not_less)

text \<open>
  Claim C4. Under the policy \<open>unixtime\<close> the candidate is the larger of the inbound
  serial and the clock; a candidate that is not greater (RFC 1982) than the previous
  internal serial is replaced by the previous serial plus one; the difference to the
  previous serial, in 32-bit arithmetic, is clamped to \<open>0x7FFFFFFF\<close>; and the new
  internal serial is the previous one plus the clamped difference modulo \<open>2 ^ 32\<close>. The
  call returns 0 and changes nothing else but the \<open>initialized\<close> mark.
\<close>

theorem update_serial_unixtime:
  assumes "soa_serial sc = Some ''unixtime''"
  shows "let prev = internal_serial zd;
             candidate0 = max (inbound_serial zd) now;
             candidate = (if DNS_SERIAL_GT candidate0 prev then candidate0 else prev + 1);
             delta = candidate - prev;
             clamped = (if delta \<le> 0x7FFFFFFF then delta else 0x7FFFFFFF);
             res = zonedata_update_serial now datestamp zd sc
         in fst res = 0 \<and> unat clamped \<le> 0x7FFFFFFF \<and>
            unat (internal_serial (snd res)) = (unat prev + unat clamped) mod 2 ^ 32 \<and>
            snd res = zd\<lparr>initialized := (if initialized zd = 0 then 1 else initialized zd),
                           internal_serial := prev + clamped\<rparr>"
proof -
  define prev where "prev = internal_serial zd"
  define candidate0 where "candidate0 = max (inbound_serial zd) now"
  define candidate where
    "candidate = (if DNS_SERIAL_GT candidate0 prev then candidate0 else prev + 1)"
  define clamped where
    "clamped = (if candidate - prev \<le> 0x7FFFFFFF then candidate - prev else 0x7FFFFFFF)"
  have m: "ods_max (inbound_serial zd) now = candidate0"
    by (auto simp: ods_max_def candidate0_def max_def)
  have res: "zonedata_update_serial now datestamp zd sc =
      (0, zd\<lparr>initialized := (if initialized zd = 0 then 1 else initialized zd),
              internal_serial := prev + clamped\<rparr>)"
    using assms unfolding zonedata_update_serial_def serial_store_eq m
    by (simp add: Let_def prev_def[symmetric] candidate_def clamped_def)
  have c: "unat clamped \<le> 0x7FFFFFFF"
    unfolding clamped_def by (rule clamp_le)
  have u: "unat (prev + clamped) = (unat prev + unat clamped) mod 2 ^ 32"
    by (simp add: unat_word_ariths)
  show ?thesis
    unfolding Let_def prev_def[symmetric] candidate0_def[symmetric] candidate_def[symmetric]
      clamped_def[symmetric] res
    using c u by simp
qed

theorem update_serial_unixtime_witness:
  "soa_serial \<lparr>soa_serial = Some ''unixtime''\<rparr> = Some ''unixtime'' \<and>
   zonedata_update_serial 1000 0 zd_s4 \<lparr>soa_serial = Some ''unixtime''\<rparr>
     = (0, zd_s4\<lparr>internal_serial := 1000\<rparr>)"
  using update_serial_unixtime[of "\<lparr>soa_serial = Some ''unixtime''\<rparr>" zd_s4 1000 0]
  by (simp add: zd_s4_def DNS_SERIAL_GT_def Let_def prod_eq_iff)

subsection \<open>The tree operations\<close>

lemma label_compare_refl: "label_compare l l = 0"
  by (induction l) auto

lemma rev_compare_refl: "rev_compare xs xs = 0"
  by (induction xs) (auto simp: label_compare_refl)

lemma domain_compare_refl: "domain_compare x x = 0"
  by (simp add: domain_compare_def ldns_dname_compare_def rev_compare_refl)

lemma search_None_iff:
  "ldns_rbtree_search key t k = None \<longleftrightarrow> (\<forall>y\<in>set t. domain_compare (key y) k \<noteq> 0)"
  by (induction t) auto

lemma search_Some_less: "ldns_rbtree_search key t k = Some n \<Longrightarrow> n < length t"
  by (induction t arbitrary: n) (auto split: if_splits)

lemma search_Some_key:
  "ldns_rbtree_search key t k = Some n \<Longrightarrow> domain_compare (key (t ! n)) k = 0"
  by (induction t arbitrary: n) (auto split: if_splits)

lemma search_append_hit:
  "\<forall>y\<in>set xs. domain_compare (key y) k \<noteq> 0 \<Longrightarrow> domain_compare (key x) k = 0 \<Longrightarrow>
   ldns_rbtree_search key (xs @ x # ys) k = Some (length xs)"
  by (induction xs) auto

lemma search_via_keys:
  "ldns_rbtree_search key t k = ldns_rbtree_search (\<lambda>x. x) (map key t) k"
  by (induction t) simp_all

lemma search_map_key:
  "map key t' = map key t \<Longrightarrow> ldns_rbtree_search key t' k = ldns_rbtree_search key t k"
  by (simp add: search_via_keys[of key t'] search_via_keys[of key t])

lemma map_key_update:
  "key v = key (xs ! i) \<Longrightarrow> map key (xs[i := v]) = map key xs"
  by (cases "i < length xs") (simp_all add: map_update list_update_same_conv list_update_beyond)

lemma insert_Some:
  assumes "ldns_rbtree_insert key t x = Some (n, t')"
  shows "n \<le> length t \<and> t' = take n t @ x # drop n t \<and> ldns_rbtree_search key t (key x) = None"
  using assms
  by (auto simp: ldns_rbtree_insert_def Let_def length_takeWhile_le split: option.splits)

lemma previous_or_last_eq:
  "n < length t \<Longrightarrow> previous_or_last t n = (if n = 0 then length t - 1 else n - 1)"
  by (auto simp: previous_or_last_def ldns_rbtree_previous_def ldns_rbtree_last_def)

lemma cmp_example_www: "domain_compare [''example''] [''www'', ''example''] = -1"
  by (simp add: domain_compare_def ldns_dname_compare_def)

lemma cmp_example_mail: "domain_compare [''example''] [''mail'', ''example''] = -1"
  by (simp add: domain_compare_def ldns_dname_compare_def)

lemma cmp_www_mail: "domain_compare [''www'', ''example''] [''mail'', ''example''] = 1"
  by (simp add: domain_compare_def ldns_dname_compare_def LDNS_DNAME_NORMALIZE_def)

lemma cmp_mail_www: "domain_compare [''mail'', ''example''] [''www'', ''example''] = -1"
  by (simp add: domain_compare_def ldns_dname_compare_def LDNS_DNAME_NORMALIZE_def)

subsection \<open>Adding a denial of existence data point\<close>

text \<open>
  Claim C1. When the denial chain holds a data point at the owner computed for the
  domain (the hashed name under NSEC3 parameters, the name of the domain without),
  \<open>zonedata_add_denial\<close> returns \<open>ODS_STATUS_CONFLICT_ERR\<close> and neither the zone data,
  with its denial chain, nor the domain changes.
\<close>

theorem add_denial_conflict:
  assumes "denial_owner H d a nsec3params = Some ow"
      and "zonedata_lookup_denial zd (Some ow) = Some n"
  shows "zonedata_add_denial H zd (Some d) (Some a) nsec3params
           = (ODS_STATUS_CONFLICT_ERR, zd, Some d)"
  using assms by (simp add: zonedata_add_denial_def)

theorem add_denial_conflict_witness:
  "denial_owner hash_fail d_www example_apex None = Some [''www'', ''example''] \<and>
   zonedata_lookup_denial zd_denials (Some [''www'', ''example'']) = Some 1 \<and>
   zonedata_add_denial hash_fail zd_denials (Some d_www) (Some example_apex) None
     = (ODS_STATUS_CONFLICT_ERR, zd_denials, Some d_www) \<and>
   denial_owner hash_collide d_www example_apex (Some example_nsec3params)
     = Some [''h0'', ''example''] \<and>
   zonedata_lookup_denial zd_denials3 (Some [''h0'', ''example'']) = Some 0 \<and>
   zonedata_add_denial hash_collide zd_denials3 (Some d_www) (Some example_apex)
       (Some example_nsec3params)
     = (ODS_STATUS_CONFLICT_ERR, zd_denials3, Some d_www)"
proof -
  have o: "denial_owner hash_fail d_www example_apex None = Some [''www'', ''example'']"
    by (simp add: denial_owner_def d_www_def mk_domain_def)
  have l: "zonedata_lookup_denial zd_denials (Some [''www'', ''example'']) = Some 1"
    by (simp add: zonedata_lookup_denial_def zonedata_denial_search_def zd_denials_def
        denial_create_def cmp_example_www domain_compare_refl)
  have o3: "denial_owner hash_collide d_www example_apex (Some example_nsec3params)
      = Some [''h0'', ''example'']"
    by (simp add: denial_owner_def dname_hash_def hash_collide_def ldns_dname_cat_clone_def
        example_apex_def)
  have l3: "zonedata_lookup_denial zd_denials3 (Some [''h0'', ''example'']) = Some 0"
    by (simp add: zonedata_lookup_denial_def zonedata_denial_search_def zd_denials3_def
        denial_create_def domain_compare_refl)
  from add_denial_conflict[OF o l] add_denial_conflict[OF o3 l3] o l o3 l3
  show ?thesis by simp
qed

text \<open>
  Claim C2. When \<open>zonedata_add_denial\<close> returns \<open>ODS_STATUS_OK\<close>, the chain has one data
  point more, found at the computed owner; that data point has \<open>bitmap_changed = 1\<close> and
  \<open>nxt_changed = 1\<close>; the data point before it in the chain (the last one when the new
  one is first) has \<open>nxt_changed = 1\<close>; the domain's \<open>denial\<close> refers to the new data
  point and the data point's \<open>domain\<close> refers back to the domain.
\<close>

theorem add_denial_ok:
  assumes "zonedata_add_denial H zd dmn apex nsec3params = (ODS_STATUS_OK, zd', dmn')"
  shows "\<exists>d a ow n. dmn = Some d \<and> apex = Some a \<and> denial_owner H d a nsec3params = Some ow \<and>
      dmn' = Some (d\<lparr>denial := Some ow\<rparr>) \<and>
      zonedata_lookup_denial zd (Some ow) = None \<and>
      zonedata_lookup_denial zd' (Some ow) = Some n \<and>
      length (denial_chain zd') = Suc (length (denial_chain zd)) \<and>
      n < length (denial_chain zd') \<and>
      owner (denial_chain zd' ! n) = ow \<and>
      domain (denial_chain zd' ! n) = Some (dname d) \<and>
      bitmap_changed (denial_chain zd' ! n) = 1 \<and>
      nxt_changed (denial_chain zd' ! n) = 1 \<and>
      nxt_changed (denial_chain zd' ! (if n = 0 then length (denial_chain zd') - 1 else n - 1)) = 1"
proof -
  from assms obtain d where d: "dmn = Some d"
    by (cases dmn) (auto simp: zonedata_add_denial_def)
  from assms d obtain a where a: "apex = Some a"
    by (cases apex) (auto simp: zonedata_add_denial_def)
  from assms d a obtain ow where ow: "denial_owner H d a nsec3params = Some ow"
    by (cases "denial_owner H d a nsec3params") (auto simp: zonedata_add_denial_def)
  from assms d a ow have look: "zonedata_lookup_denial zd (Some ow) = None"
    by (auto simp: zonedata_add_denial_def split: if_splits)
  from assms d a ow look obtain n chain where
    ins: "ldns_rbtree_insert owner (denial_chain zd) (denial_create ow) = Some (n, chain)"
    by (cases "ldns_rbtree_insert owner (denial_chain zd) (denial_create ow)")
       (auto simp: zonedata_add_denial_def)
  define chain1 where "chain1 = chain[n := (chain ! n)\<lparr>bitmap_changed := 1, nxt_changed := 1\<rparr>]"
  define p where "p = previous_or_last chain1 n"
  define chain2 where "chain2 = chain1[p := (chain1 ! p)\<lparr>nxt_changed := 1\<rparr>]"
  define chain3 where "chain3 = chain2[n := (chain2 ! n)\<lparr>domain := Some (dname d)\<rparr>]"
  from assms d a ow look ins have res: "zd' = zd\<lparr>denial_chain := chain3\<rparr>"
      and res2: "dmn' = Some (d\<lparr>denial := Some ow\<rparr>)"
    by (simp_all add: zonedata_add_denial_def Let_def chain1_def p_def chain2_def chain3_def)
  from insert_Some[OF ins] have nle: "n \<le> length (denial_chain zd)"
    and chain: "chain = take n (denial_chain zd) @ denial_create ow # drop n (denial_chain zd)"
    and none: "ldns_rbtree_search owner (denial_chain zd) ow = None"
    by (simp_all add: denial_create_def)
  have len: "length chain = Suc (length (denial_chain zd))" using nle by (simp add: chain)
  have nlt: "n < length chain" using nle len by simp
  have len3: "length chain3 = length chain" by (simp add: chain3_def chain2_def chain1_def)
  have plt: "p < length chain"
    using nlt by (auto simp: p_def chain1_def previous_or_last_eq)
  have peq: "p = (if n = 0 then length chain - 1 else n - 1)"
    using nlt by (simp add: p_def chain1_def previous_or_last_eq)
  have cn: "chain ! n = denial_create ow"
    using nle by (simp add: chain nth_append)
  have keys: "map owner chain3 = map owner chain"
    unfolding chain3_def chain2_def chain1_def by (simp add: map_key_update)
  have "ldns_rbtree_search owner chain ow = Some (length (take n (denial_chain zd)))"
    unfolding chain
    apply (rule search_append_hit)
    using none apply (auto simp: search_None_iff dest: in_set_takeD)[1]
    apply (simp add: denial_create_def domain_compare_refl)
    done
  then have s3: "ldns_rbtree_search owner chain3 ow = Some n"
    using nle by (simp add: search_map_key[OF keys])
  have dc: "denial_chain zd' = chain3" by (simp add: res)
  have g0: "zonedata_lookup_denial zd' (Some ow) = Some n"
    using s3 by (simp add: dc zonedata_lookup_denial_def zonedata_denial_search_def)
  have g1: "length (denial_chain zd') = Suc (length (denial_chain zd))"
    by (simp add: dc len3 len)
  have g2: "n < length (denial_chain zd')" using nlt by (simp add: dc len3)
  have f1: "owner (denial_chain zd' ! n) = ow"
    using nlt plt cn
    by (auto simp: dc chain3_def chain2_def chain1_def denial_create_def nth_list_update)
  have f2: "domain (denial_chain zd' ! n) = Some (dname d)"
    using nlt by (simp add: dc chain3_def chain2_def chain1_def)
  have f3: "bitmap_changed (denial_chain zd' ! n) = 1"
    using nlt plt by (auto simp: dc chain3_def chain2_def chain1_def nth_list_update)
  have f3': "nxt_changed (denial_chain zd' ! n) = 1"
    using nlt plt by (auto simp: dc chain3_def chain2_def chain1_def nth_list_update)
  have "nxt_changed (chain3 ! p) = 1"
    using nlt plt by (auto simp: chain3_def chain2_def chain1_def nth_list_update)
  then have f4: "nxt_changed (denial_chain zd' !
      (if n = 0 then length (denial_chain zd') - 1 else n - 1)) = 1"
    unfolding dc len3 by (simp only: peq)
  show ?thesis
    apply (rule exI[of _ d], rule exI[of _ a], rule exI[of _ ow], rule exI[of _ n])
    apply (intro conjI)
    apply (fact d a ow res2 look g0 g1 g2 f1 f2 f3 f3' f4)+
    done
qed

lemma add_denial_mail:
  "zonedata_add_denial hash_fail zd_denials (Some d_mail) (Some example_apex) None
     = (ODS_STATUS_OK, zd_denials_mail, Some (d_mail\<lparr>denial := Some [''mail'', ''example'']\<rparr>))"
  by (simp add: zonedata_add_denial_def denial_owner_def d_mail_def mk_domain_def
        zonedata_lookup_denial_def zonedata_denial_search_def zd_denials_def zd_denials_mail_def
        denial_create_def cmp_example_mail cmp_www_mail ldns_rbtree_insert_def
        previous_or_last_def ldns_rbtree_previous_def ldns_rbtree_last_def Let_def)

theorem add_denial_ok_witness:
  "zonedata_add_denial hash_fail zd_denials (Some d_mail) (Some example_apex) None
     = (ODS_STATUS_OK, zd_denials_mail, Some (d_mail\<lparr>denial := Some [''mail'', ''example'']\<rparr>)) \<and>
   (\<exists>d a ow n. Some d_mail = Some d \<and> Some example_apex = Some a \<and>
      denial_owner hash_fail d a None = Some ow \<and>
      Some (d_mail\<lparr>denial := Some [''mail'', ''example'']\<rparr>) = Some (d\<lparr>denial := Some ow\<rparr>) \<and>
      zonedata_lookup_denial zd_denials (Some ow) = None \<and>
      zonedata_lookup_denial zd_denials_mail (Some ow) = Some n \<and>
      length (denial_chain zd_denials_mail) = Suc (length (denial_chain zd_denials)) \<and>
      n < length (denial_chain zd_denials_mail) \<and>
      owner (denial_chain zd_denials_mail ! n) = ow \<and>
      domain (denial_chain zd_denials_mail ! n) = Some (dname d) \<and>
      bitmap_changed (denial_chain zd_denials_mail ! n) = 1 \<and>
      nxt_changed (denial_chain zd_denials_mail ! n) = 1 \<and>
      nxt_changed (denial_chain zd_denials_mail !
        (if n = 0 then length (denial_chain zd_denials_mail) - 1 else n - 1)) = 1)"
  using add_denial_mail add_denial_ok[OF add_denial_mail] by (rule conjI)

subsection \<open>Rollback\<close>

declare rollback_loop.simps [simp del]
declare examine_loop.simps [simp del]
declare occluded_loop.simps [simp del]

lemma rollback_loop_eq:
  "n < length tree \<Longrightarrow> rollback_loop R tree (Some n) = take n tree @ map R (drop n tree)"
proof (induction "length tree - n" arbitrary: tree n)
  case 0
  then show ?case by simp
next
  case (Suc k)
  let ?t = "tree[n := R (tree ! n)]"
  have step: "rollback_loop R tree (Some n) = rollback_loop R ?t (ldns_rbtree_next tree (Some n))"
    using Suc.prems by (subst rollback_loop.simps) simp
  have d: "drop n tree = tree ! n # drop (Suc n) tree"
    using Suc.prems by (simp add: Cons_nth_drop_Suc)
  show ?case
  proof (cases "Suc n < length tree")
    case True
    have "k = length ?t - Suc n" using Suc.hyps(2) by simp
    from Suc.hyps(1)[OF this] True
    have "rollback_loop R ?t (Some (Suc n)) = take (Suc n) ?t @ map R (drop (Suc n) ?t)" by simp
    then show ?thesis
      using True Suc.prems
      by (simp add: step ldns_rbtree_next_def d take_Suc_conv_app_nth)
  next
    case False
    then have "rollback_loop R ?t (ldns_rbtree_next tree (Some n)) = ?t"
      by (simp add: ldns_rbtree_next_def rollback_loop.simps)
    moreover have "?t = take n tree @ [R (tree ! n)]"
      using False Suc.prems by (simp add: upd_conv_take_nth_drop)
    ultimately show ?thesis using False Suc.prems by (simp add: step d)
  qed
qed

lemma zonedata_rollback_eq:
  "zonedata_rollback R zd = zd\<lparr>domains := map R (domains zd)\<rparr>"
proof (cases "domains zd = []")
  case True
  then show ?thesis
    by (simp add: zonedata_rollback_def rollback_loop.simps)
next
  case False
  then have "rollback_loop R (domains zd) (Some 0) = map R (domains zd)"
    by (simp add: rollback_loop_eq)
  with False show ?thesis
    by (simp add: zonedata_rollback_def ldns_rbtree_first_def)
qed

text \<open>
  Claim C6. With a domain rollback that is idempotent and keeps the name of the domain
  (as dropping the pending changes of the RRsets is), a second \<open>zonedata_rollback\<close>
  changes nothing; a rollback keeps every node of the domain tree, in its place and with
  its name: it replaces each domain by its rollback and touches nothing else of the zone
  data.
\<close>

theorem rollback_idempotent:
  assumes "\<forall>d. R (R d) = R d" and "\<forall>d. dname (R d) = dname d"
  shows "zonedata_rollback R (zonedata_rollback R zd) = zonedata_rollback R zd \<and>
         map dname (domains (zonedata_rollback R zd)) = map dname (domains zd) \<and>
         domains (zonedata_rollback R zd) = map R (domains zd) \<and>
         (zonedata_rollback R zd)\<lparr>domains := domains zd\<rparr> = zd"
  using assms by (simp add: zonedata_rollback_eq)

lemma domain_rollback_spec_idem: "\<forall>d. domain_rollback_spec (domain_rollback_spec d) = domain_rollback_spec d"
  by (simp add: domain_rollback_spec_def rrset_rollback_def comp_def)

lemma domain_rollback_spec_dname: "\<forall>d. dname (domain_rollback_spec d) = dname d"
  by (simp add: domain_rollback_spec_def)

theorem rollback_idempotent_witness:
  "(\<forall>d. domain_rollback_spec (domain_rollback_spec d) = domain_rollback_spec d) \<and>
   (\<forall>d. dname (domain_rollback_spec d) = dname d) \<and>
   zonedata_rollback domain_rollback_spec (zonedata_rollback domain_rollback_spec zd_pending)
     = zonedata_rollback domain_rollback_spec zd_pending \<and>
   map dname (domains (zonedata_rollback domain_rollback_spec zd_pending))
     = [[''example''], [''www'', ''example'']] \<and>
   domains (zonedata_rollback domain_rollback_spec zd_pending) = [d_apex, d_www]"
proof -
  have e: "map domain_rollback_spec (domains zd_pending) = [d_apex, d_www]"
    by code_simp
  have n: "map dname (domains zd_pending) = [[''example''], [''www'', ''example'']]"
    by code_simp
  from rollback_idempotent[OF domain_rollback_spec_idem domain_rollback_spec_dname, of zd_pending]
    domain_rollback_spec_idem domain_rollback_spec_dname e n
  show ?thesis by (simp add: d_apex_def d_www_def mk_domain_def)
qed

subsection \<open>Deleting an RR\<close>

text \<open>
  Claim C10. When no domain of the domain tree has the owner name of the RR,
  \<open>zonedata_del_rr\<close> returns 0, the zone data is as before, and the one log line is a
  warning.
\<close>

theorem del_rr_no_domain:
  assumes "\<forall>d\<in>set (domains zd). ldns_dname_compare (dname d) (rr_owner rr) \<noteq> 0"
  shows "zonedata_del_rr D zd rr =
           (0, zd, [(LOG_WARNING, ''unable to delete RR from zonedata: no such domain'')])"
proof -
  have "zonedata_lookup_domain zd (Some (rr_owner rr)) = None"
    using assms
    by (simp add: zonedata_lookup_domain_def zonedata_domain_search_def search_None_iff
        domain_compare_def)
  then show ?thesis by (simp add: zonedata_del_rr_def)
qed

theorem del_rr_no_domain_witness:
  "zonedata_del_rr (\<lambda>d rr. (1, d)) zd_alias rr_ftp =
     (0, zd_alias, [(LOG_WARNING, ''unable to delete RR from zonedata: no such domain'')])"
proof -
  have "\<forall>d\<in>set (domains zd_alias). ldns_dname_compare (dname d) (rr_owner rr_ftp) \<noteq> 0"
    by code_simp
  from del_rr_no_domain[OF this] show ?thesis .
qed

subsection \<open>Examination\<close>

lemma occluded_loop_log:
  "\<forall>e\<in>set (snd (occluded_loop h zd dmn apex p)). fst e = LOG_WARNING"
proof (induction h zd dmn apex p rule: occluded_loop.induct)
  case (1 h zd dmn apex parent_rdf)
  show ?case
    apply (subst occluded_loop.simps)
    using 1 by (auto simp: Let_def split: option.splits)
qed

lemma is_occluded_log:
  "\<forall>e\<in>set (snd (zonedata_examine_domain_is_occluded h zd dmn apex)). fst e = LOG_WARNING"
  using occluded_loop_log by (simp add: zonedata_examine_domain_is_occluded_def)

lemma examine_nodes_next:
  "n < length (domains zd) \<Longrightarrow>
   examine_nodes zd (Some n) = insert n (examine_nodes zd (ldns_rbtree_next (domains zd) (Some n)))"
  by (auto simp: examine_nodes_def ldns_rbtree_next_def)

lemma examine_loop_step:
  "n < length (domains zd) \<Longrightarrow>
   examine_loop h zd apex mode (Some n) r lg =
     examine_loop h zd apex mode (ldns_rbtree_next (domains zd) (Some n))
       (if examine_error h (domains zd ! n) then 1 else r)
       (lg @ (if mode = ADAPTER_FILE
              then snd (zonedata_examine_domain_is_occluded h zd (domains zd ! n) apex) else []))"
  by (subst examine_loop.simps) (simp add: Let_def examine_error_def)

lemma examine_loop_result:
  "fst (examine_loop h zd apex mode node r lg) =
     (if \<exists>i\<in>examine_nodes zd node. examine_error h (domains zd ! i) then 1 else r)"
proof (cases node)
  case None
  then show ?thesis by (simp add: examine_loop.simps examine_nodes_def)
next
  case (Some n)
  have "fst (examine_loop h zd apex mode (Some n) r lg) =
     (if \<exists>i\<in>examine_nodes zd (Some n). examine_error h (domains zd ! i) then 1 else r)"
  proof (induction "length (domains zd) - n" arbitrary: n r lg)
    case 0
    then show ?case by (simp add: examine_loop.simps examine_nodes_def)
  next
    case (Suc k)
    then have lt: "n < length (domains zd)" by simp
    show ?case
    proof (cases "Suc n < length (domains zd)")
      case True
      have "k = length (domains zd) - Suc n" using Suc.hyps(2) by simp
      note IH = Suc.hyps(1)[OF this]
      show ?thesis
        unfolding examine_loop_step[OF lt] examine_nodes_next[OF lt]
        using True by (simp add: ldns_rbtree_next_def IH)
    next
      case False
      show ?thesis
        unfolding examine_loop_step[OF lt] examine_nodes_next[OF lt]
        using False by (simp add: ldns_rbtree_next_def examine_loop.simps examine_nodes_def)
    qed
  qed
  with Some show ?thesis by simp
qed

lemma examine_loop_log:
  "\<forall>e\<in>set (snd (examine_loop h zd apex mode node r lg)). e \<in> set lg \<or> fst e = LOG_WARNING"
proof (cases node)
  case None
  then show ?thesis by (simp add: examine_loop.simps)
next
  case (Some n)
  have "\<forall>e\<in>set (snd (examine_loop h zd apex mode (Some n) r lg)). e \<in> set lg \<or> fst e = LOG_WARNING"
  proof (induction "length (domains zd) - n" arbitrary: n r lg)
    case 0
    then show ?case by (simp add: examine_loop.simps)
  next
    case (Suc k)
    then have lt: "n < length (domains zd)" by simp
    show ?case
    proof (cases "Suc n < length (domains zd)")
      case True
      have "k = length (domains zd) - Suc n" using Suc.hyps(2) by simp
      note IH = Suc.hyps(1)[OF this]
      show ?thesis
        unfolding examine_loop_step[OF lt]
        using True IH is_occluded_log[of h zd "domains zd ! n" apex]
        by (fastforce simp: ldns_rbtree_next_def)
    next
      case False
      show ?thesis
        unfolding examine_loop_step[OF lt]
        using False is_occluded_log[of h zd "domains zd ! n" apex]
        by (auto simp: ldns_rbtree_next_def examine_loop.simps)
    qed
  qed
  with Some show ?thesis by simp
qed

lemma examine_loop_nolog:
  "mode \<noteq> ADAPTER_FILE \<Longrightarrow> snd (examine_loop h zd apex mode node r lg) = lg"
proof (cases node)
  case None
  then show ?thesis by (simp add: examine_loop.simps)
next
  case (Some n)
  assume m: "mode \<noteq> ADAPTER_FILE"
  have "snd (examine_loop h zd apex mode (Some n) r lg) = lg"
  proof (induction "length (domains zd) - n" arbitrary: n r lg)
    case 0
    then show ?case by (simp add: examine_loop.simps)
  next
    case (Suc k)
    then have lt: "n < length (domains zd)" by simp
    show ?case
    proof (cases "Suc n < length (domains zd)")
      case True
      have "k = length (domains zd) - Suc n" using Suc.hyps(2) by simp
      note IH = Suc.hyps(1)[OF this]
      show ?thesis
        unfolding examine_loop_step[OF lt]
        using True m by (simp add: ldns_rbtree_next_def IH)
    next
      case False
      show ?thesis
        unfolding examine_loop_step[OF lt]
        using False m by (simp add: ldns_rbtree_next_def examine_loop.simps)
    qed
  qed
  with Some show ?thesis by simp
qed

lemma examine_nodes_first:
  "examine_nodes zd (if domains zd \<noteq> [] then ldns_rbtree_first (domains zd) else None)
     = {..<length (domains zd)}"
  by (auto simp: examine_nodes_def ldns_rbtree_first_def)

text \<open>
  Claim C5. \<open>zonedata_examine\<close> returns a status other than \<open>ODS_STATUS_OK\<close> exactly when
  some domain of the tree fails the CNAME-and-other-data check, the one-CNAME check or
  the one-DNAME check. The status in file mode is the status in any other mode: the
  occlusion check does not enter it. Every log line of the examination is a warning, and
  outside file mode there is none.
\<close>

theorem examine_status:
  "(fst (zonedata_examine h zd apex mode) \<noteq> ODS_STATUS_OK \<longleftrightarrow>
      (\<exists>d\<in>set (domains zd).
         domain_examine_rrset_is_alone h d LDNS_RR_TYPE_CNAME \<noteq> 0 \<or>
         domain_examine_rrset_is_singleton h d LDNS_RR_TYPE_CNAME \<noteq> 0 \<or>
         domain_examine_rrset_is_singleton h d LDNS_RR_TYPE_DNAME \<noteq> 0)) \<and>
   fst (zonedata_examine h zd apex ADAPTER_FILE) = fst (zonedata_examine h zd apex mode) \<and>
   (\<forall>e\<in>set (snd (zonedata_examine h zd apex mode)). fst e = LOG_WARNING) \<and>
   (mode \<noteq> ADAPTER_FILE \<longrightarrow> snd (zonedata_examine h zd apex mode) = [])"
proof -
  let ?first = "if domains zd \<noteq> [] then ldns_rbtree_first (domains zd) else None"
  have fst_eq: "fst (zonedata_examine h zd apex m) =
      (if fst (examine_loop h zd apex m ?first 0 []) \<noteq> 0 then ODS_STATUS_ERR else ODS_STATUS_OK)"
    for m by (simp add: zonedata_examine_def split: prod.splits)
  have snd_eq: "snd (zonedata_examine h zd apex m) = snd (examine_loop h zd apex m ?first 0 [])"
    for m by (simp add: zonedata_examine_def split: prod.splits)
  have ex: "(\<exists>i\<in>{..<length (domains zd)}. examine_error h (domains zd ! i)) \<longleftrightarrow>
      (\<exists>d\<in>set (domains zd). examine_error h d)"
    by (metis in_set_conv_nth lessThan_iff)
  have a: "fst (zonedata_examine h zd apex m) \<noteq> ODS_STATUS_OK \<longleftrightarrow>
      (\<exists>d\<in>set (domains zd). examine_error h d)" for m
    unfolding fst_eq examine_loop_result examine_nodes_first ex by simp
  have b: "fst (zonedata_examine h zd apex ADAPTER_FILE) = fst (zonedata_examine h zd apex mode)"
    unfolding fst_eq examine_loop_result by simp
  have c: "\<forall>e\<in>set (snd (zonedata_examine h zd apex mode)). fst e = LOG_WARNING"
    unfolding snd_eq using examine_loop_log[of h zd apex mode ?first 0 "[]"] by simp
  have d: "mode \<noteq> ADAPTER_FILE \<longrightarrow> snd (zonedata_examine h zd apex mode) = []"
    unfolding snd_eq by (simp add: examine_loop_nolog)
  show ?thesis
    using a[of mode] b c d unfolding examine_error_def by blast
qed

lemma examine_occluded:
  "zonedata_examine example_helpers zd_occluded example_apex ADAPTER_FILE
     = (ODS_STATUS_OK, [(LOG_WARNING, ''occluded (non-glue) data (below NS)'')])"
  by code_simp

lemma examine_alias: "\<exists>d\<in>set (domains zd_alias).
     domain_examine_rrset_is_alone example_helpers d LDNS_RR_TYPE_CNAME \<noteq> 0 \<or>
     domain_examine_rrset_is_singleton example_helpers d LDNS_RR_TYPE_CNAME \<noteq> 0 \<or>
     domain_examine_rrset_is_singleton example_helpers d LDNS_RR_TYPE_DNAME \<noteq> 0"
  by code_simp

theorem examine_status_witness:
  "zonedata_examine example_helpers zd_occluded example_apex ADAPTER_FILE
     = (ODS_STATUS_OK, [(LOG_WARNING, ''occluded (non-glue) data (below NS)'')]) \<and>
   fst (zonedata_examine example_helpers zd_occluded example_apex ADAPTER_MYSQL) = ODS_STATUS_OK \<and>
   snd (zonedata_examine example_helpers zd_occluded example_apex ADAPTER_MYSQL) = [] \<and>
   fst (zonedata_examine example_helpers zd_alias example_apex ADAPTER_FILE) \<noteq> ODS_STATUS_OK"
  using examine_status[of example_helpers zd_occluded example_apex ADAPTER_MYSQL]
    examine_status[of example_helpers zd_alias example_apex ADAPTER_FILE]
    examine_occluded examine_alias
  by simp

subsection \<open>Commit\<close>

declare commit_loop.simps [simp del]

lemma shape_length [simp]: "length (shape ds) = length ds"
  by (simp add: shape_def)

lemma shape_nth: "i < length ds \<Longrightarrow> shape ds ! i = (dname (ds ! i), rrsets (ds ! i))"
  by (simp add: shape_def)

lemma shape_update_same:
  "dname v = dname (ds ! i) \<Longrightarrow> rrsets v = rrsets (ds ! i) \<Longrightarrow> shape (ds[i := v]) = shape ds"
  unfolding shape_def by (rule map_key_update) simp

lemma shape_names: "shape ds' = shape ds \<Longrightarrow> map dname ds' = map dname ds"
proof -
  assume "shape ds' = shape ds"
  then have "map fst (shape ds') = map fst (shape ds)" by simp
  then show ?thesis by (simp add: shape_def comp_def)
qed

lemma shape_delete: "shape (ldns_rbtree_delete ds n) = ldns_rbtree_delete (shape ds) n"
  by (simp add: shape_def ldns_rbtree_delete_def take_map drop_map)

lemma parent_decrement_shape:
  "parent_decrement tree dmn = Some ds \<Longrightarrow> shape ds = shape tree"
  by (auto simp: parent_decrement_def shape_update_same split: option.splits)

lemma fixup_shadow_shape:
  "zonedata_del_domain_fixup True tree zd dmn = Some (zd1, r) \<Longrightarrow>
   shape (domains zd1) = shape (domains zd)"
  by (auto simp: zonedata_del_domain_fixup_def Let_def parent_decrement_shape
      split: option.splits)

lemma del_domain_nsec3_shape:
  "zonedata_del_domain_nsec3 zd k = Some zd1 \<Longrightarrow> shape (domains zd1) = shape (domains zd)"
  by (auto simp: zonedata_del_domain_nsec3_def fixup_shadow_shape split: option.splits)

lemma fixup_domains_shape:
  assumes "zonedata_del_domain_fixup False (domains zd) zd dmn = Some (zd2, None)"
  shows "\<exists>i. ldns_rbtree_search dname (domains zd) (dname dmn) = Some i \<and>
             shape (domains zd2) = ldns_rbtree_delete (shape (domains zd)) i"
proof -
  from assms obtain i where i: "ldns_rbtree_search dname (domains zd) (dname dmn) = Some i"
    by (auto simp: zonedata_del_domain_fixup_def split: option.splits)
  let ?p = "previous_or_last (domains zd) i"
  let ?t1 = "(domains zd)[?p := (domains zd ! ?p)\<lparr>nsec_nxt_changed := 1\<rparr>]"
  from assms i obtain ds where
    pd: "parent_decrement (ldns_rbtree_delete ?t1 i) dmn = Some ds" and z: "domains zd2 = ds"
    by (auto simp: zonedata_del_domain_fixup_def Let_def split: option.splits)
  have "shape ?t1 = shape (domains zd)" by (simp add: shape_update_same)
  then have "shape (ldns_rbtree_delete ?t1 i) = ldns_rbtree_delete (shape (domains zd)) i"
    by (simp add: shape_delete)
  with parent_decrement_shape[OF pd] i z show ?thesis by simp
qed

lemma del_domain_shape:
  assumes "zonedata_del_domain zd (Some d) = Some (zd2, None)"
  shows "\<exists>i. ldns_rbtree_search dname (domains zd) (dname d) = Some i \<and>
             shape (domains zd2) = ldns_rbtree_delete (shape (domains zd)) i"
proof -
  from assms obtain zd1 where
    n3: "(case nsec3 d of None \<Rightarrow> Some zd | Some k \<Rightarrow> zonedata_del_domain_nsec3 zd k) = Some zd1"
    and fx: "zonedata_del_domain_fixup False (domains zd1) zd1 d = Some (zd2, None)"
    by (auto simp: zonedata_del_domain_def split: option.splits)
  have sh: "shape (domains zd1) = shape (domains zd)"
    using n3 by (auto simp: del_domain_nsec3_shape split: option.splits)
  from fixup_domains_shape[OF fx] obtain i where
    "ldns_rbtree_search dname (domains zd1) (dname d) = Some i"
    "shape (domains zd2) = ldns_rbtree_delete (shape (domains zd1)) i" by blast
  then show ?thesis
    using sh search_map_key[OF shape_names[OF sh]] by auto
qed

lemma search_distinct:
  assumes "keys_distinct (shape ds)" and "n < length ds"
  shows "ldns_rbtree_search dname ds (dname (ds ! n)) = Some n"
proof -
  have ds: "ds = take n ds @ ds ! n # drop (Suc n) ds"
    using assms(2) by (simp add: id_take_nth_drop)
  have "\<forall>y\<in>set (take n ds). domain_compare (dname y) (dname (ds ! n)) \<noteq> 0"
  proof
    fix y assume "y \<in> set (take n ds)"
    then obtain i where i: "i < n" "y = ds ! i"
      using assms(2) by (auto simp: in_set_conv_nth)
    with assms show "domain_compare (dname y) (dname (ds ! n)) \<noteq> 0"
      by (auto simp: keys_distinct_def shape_nth dest!: spec[of _ i] spec[of _ n])
  qed
  from search_append_hit[OF this domain_compare_refl, of "drop (Suc n) ds"] ds assms(2)
  show ?thesis by (metis length_take min.absorb2 less_imp_le)
qed

lemma delete_length: "n < length t \<Longrightarrow> length (ldns_rbtree_delete t n) = length t - 1"
  by (auto simp: ldns_rbtree_delete_def)

lemma delete_nth:
  "n < length t \<Longrightarrow> i < length t - 1 \<Longrightarrow>
   ldns_rbtree_delete t n ! i = t ! (if i < n then i else Suc i)"
  by (auto simp: ldns_rbtree_delete_def nth_append min_def)

lemma leaf_free_keep:
  assumes "leaf_free sh (Suc n)" and "n < length sh"
    and "snd v \<noteq> [] \<or> (Suc n < length sh \<and> ldns_dname_is_subdomain (fst (sh ! Suc n)) (fst v))"
  shows "leaf_free (sh[n := v]) n"
  unfolding leaf_free_def
proof (intro allI impI)
  fix j
  assume a: "n \<le> j \<and> j < length (sh[n := v]) \<and> snd (sh[n := v] ! j) = []"
  show "Suc j < length (sh[n := v]) \<and>
        ldns_dname_is_subdomain (fst (sh[n := v] ! Suc j)) (fst (sh[n := v] ! j))"
  proof (cases "j = n")
    case True
    with a assms show ?thesis by auto
  next
    case False
    with a have "Suc n \<le> j" "j < length sh" "snd (sh ! j) = []" by auto
    with assms(1) have "Suc j < length sh \<and> ldns_dname_is_subdomain (fst (sh ! Suc j)) (fst (sh ! j))"
      unfolding leaf_free_def by blast
    with False a show ?thesis by auto
  qed
qed

lemma leaf_free_delete:
  assumes "leaf_free sh (Suc n)" and "n < length sh"
  shows "leaf_free (ldns_rbtree_delete sh n) n"
  unfolding leaf_free_def
proof (intro allI impI)
  fix j
  assume a: "n \<le> j \<and> j < length (ldns_rbtree_delete sh n) \<and> snd (ldns_rbtree_delete sh n ! j) = []"
  then have j: "j < length sh - 1" "n \<le> j" using assms(2) by (auto simp: delete_length)
  then have e: "ldns_rbtree_delete sh n ! j = sh ! Suc j"
    using assms(2) by (simp add: delete_nth)
  have "Suc n \<le> Suc j \<and> Suc j < length sh \<and> snd (sh ! Suc j) = []"
    using a j e by auto
  with assms(1) have s: "Suc (Suc j) < length sh \<and>
      ldns_dname_is_subdomain (fst (sh ! Suc (Suc j))) (fst (sh ! Suc j))"
    unfolding leaf_free_def by blast
  then have lt: "Suc j < length sh - 1" by linarith
  then have "ldns_rbtree_delete sh n ! Suc j = sh ! Suc (Suc j)"
    using assms(2) j by (simp add: delete_nth)
  with s e assms(2) lt show "Suc j < length (ldns_rbtree_delete sh n) \<and>
     ldns_dname_is_subdomain (fst (ldns_rbtree_delete sh n ! Suc j)) (fst (ldns_rbtree_delete sh n ! j))"
    by (simp add: delete_length)
qed

lemma keys_distinct_update:
  "keys_distinct sh \<Longrightarrow> n < length sh \<Longrightarrow> fst v = fst (sh ! n) \<Longrightarrow> keys_distinct (sh[n := v])"
  unfolding keys_distinct_def by (auto simp: nth_list_update)

lemma keys_distinct_delete:
  assumes "keys_distinct sh" and "n < length sh"
  shows "keys_distinct (ldns_rbtree_delete sh n)"
  unfolding keys_distinct_def
proof (intro allI impI)
  fix i j
  assume a: "i < j \<and> j < length (ldns_rbtree_delete sh n)"
  then have j: "j < length sh - 1" "i < length sh - 1" using assms(2) by (auto simp: delete_length)
  let ?f = "\<lambda>k. if k < n then k else Suc k"
  have "?f i < ?f j" "?f j < length sh" using a j by auto
  with assms(1) have "domain_compare (fst (sh ! ?f i)) (fst (sh ! ?f j)) \<noteq> 0"
    unfolding keys_distinct_def by blast
  then show "domain_compare (fst (ldns_rbtree_delete sh n ! i)) (fst (ldns_rbtree_delete sh n ! j)) \<noteq> 0"
    using assms(2) j by (simp add: delete_nth)
qed

lemma shape_update: "shape (ds[n := v]) = (shape ds)[n := (dname v, rrsets v)]"
  by (simp add: shape_def map_update)

lemma commit_loop_unfold:
  assumes "n < length (domains zd)" and "C (domains zd ! n) = (st, dmn)"
  shows "commit_loop C zd (Some n) =
     (let zd1 = zd\<lparr>domains := (domains zd)[n := dmn]\<rparr> in
      if st \<noteq> ODS_STATUS_OK then Some (st, zd1)
      else if domain_count_rrset dmn \<le> 0 \<and> leaf_cond zd1 n dmn then
        (case zonedata_del_domain zd1 (Some dmn) of
           None \<Rightarrow> None
         | Some (zd2, Some d) \<Rightarrow> Some (ODS_STATUS_ERR, zd2)
         | Some (zd2, None) \<Rightarrow> commit_loop C zd2 (ldns_rbtree_previous (Some n)))
      else commit_loop C zd1 (ldns_rbtree_previous (Some n)))"
  using assms
  by (subst commit_loop.simps) (simp add: Let_def leaf_cond_def)

lemma leaf_cond_not:
  "n < length (domains zd1) \<Longrightarrow> \<not> leaf_cond zd1 n dmn \<Longrightarrow>
   Suc n < length (domains zd1) \<and>
   ldns_dname_is_subdomain (dname (domains zd1 ! Suc n)) (dname dmn)"
  by (auto simp: leaf_cond_def ldns_rbtree_next_def split: if_splits)

lemma commit_step:
  assumes run: "commit_loop C zd (Some n) = Some (ODS_STATUS_OK, zd')"
    and n: "n < length (domains zd)"
    and C: "\<forall>d. dname (snd (C d)) = dname d"
    and kd: "keys_distinct (shape (domains zd))"
    and lf: "leaf_free (shape (domains zd)) (Suc n)"
  shows "\<exists>zdX. commit_loop C zdX (ldns_rbtree_previous (Some n)) = Some (ODS_STATUS_OK, zd') \<and>
      n \<le> length (domains zdX) \<and> keys_distinct (shape (domains zdX)) \<and>
      leaf_free (shape (domains zdX)) n \<and>
      set (map dname (domains zdX)) \<subseteq> set (map dname (domains zd))"
proof -
  obtain st dmn where c: "C (domains zd ! n) = (st, dmn)" by (cases "C (domains zd ! n)")
  define zd1 where "zd1 = zd\<lparr>domains := (domains zd)[n := dmn]\<rparr>"
  have nm: "dname dmn = dname (domains zd ! n)"
    using C c by (metis snd_conv)
  have sh1: "shape (domains zd1) = (shape (domains zd))[n := (dname dmn, rrsets dmn)]"
    by (simp add: zd1_def shape_update)
  have kd1: "keys_distinct (shape (domains zd1))"
    unfolding sh1 using kd n nm by (intro keys_distinct_update) (simp_all add: shape_nth)
  have n1: "n < length (domains zd1)" using n by (simp add: zd1_def)
  have names1: "map dname (domains zd1) = map dname (domains zd)"
    unfolding zd1_def using nm by (simp add: map_key_update)
  have at: "domains zd1 ! n = dmn" using n by (simp add: zd1_def)
  note u = run[unfolded commit_loop_unfold[where C = C and st = st and dmn = dmn, OF n c] Let_def,
      folded zd1_def]
  have st: "st = ODS_STATUS_OK" using u by (auto split: if_splits)
  show ?thesis
  proof (cases "domain_count_rrset dmn \<le> 0 \<and> leaf_cond zd1 n dmn")
    case True
    with u st obtain zd2 where del: "zonedata_del_domain zd1 (Some dmn) = Some (zd2, None)"
      and r: "commit_loop C zd2 (ldns_rbtree_previous (Some n)) = Some (ODS_STATUS_OK, zd')"
      by (auto split: option.splits prod.splits)
    from del_domain_shape[OF del] obtain i where
      i: "ldns_rbtree_search dname (domains zd1) (dname dmn) = Some i"
      and sh2: "shape (domains zd2) = ldns_rbtree_delete (shape (domains zd1)) i" by blast
    have "ldns_rbtree_search dname (domains zd1) (dname (domains zd1 ! n)) = Some n"
      by (rule search_distinct[OF kd1 n1])
    with i at have i_n: "i = n" by simp
    have lf1: "leaf_free (shape (domains zd1)) (Suc n)"
      using lf unfolding sh1 leaf_free_def by (auto simp: nth_list_update)
    have a: "leaf_free (shape (domains zd2)) n"
      unfolding sh2 i_n using lf1 n1 by (intro leaf_free_delete) simp_all
    have b: "keys_distinct (shape (domains zd2))"
      unfolding sh2 i_n using kd1 n1 by (intro keys_distinct_delete) simp_all
    have "length (shape (domains zd2)) = length (domains zd1) - 1"
      unfolding sh2 i_n using n1 by (simp add: delete_length)
    then have l: "n \<le> length (domains zd2)" using n1 by simp
    have "map fst (shape (domains zd2)) = ldns_rbtree_delete (map fst (shape (domains zd1))) n"
      unfolding sh2 i_n by (simp add: ldns_rbtree_delete_def take_map drop_map)
    then have "map dname (domains zd2) = ldns_rbtree_delete (map dname (domains zd1)) n"
      by (simp add: shape_def comp_def)
    then have "set (map dname (domains zd2)) \<subseteq> set (map dname (domains zd1))"
      by (auto simp: ldns_rbtree_delete_def dest: in_set_takeD in_set_dropD)
    with r a b l names1 show ?thesis
      by (intro exI[of _ zd2]) simp
  next
    case False
    with u st have r: "commit_loop C zd1 (ldns_rbtree_previous (Some n)) = Some (ODS_STATUS_OK, zd')"
      by (auto split: if_splits)
    have "snd (dname dmn, rrsets dmn) \<noteq> [] \<or>
        (Suc n < length (shape (domains zd)) \<and>
         ldns_dname_is_subdomain (fst (shape (domains zd) ! Suc n)) (fst (dname dmn, rrsets dmn)))"
    proof (cases "domain_count_rrset dmn \<le> 0")
      case True
      with False have "\<not> leaf_cond zd1 n dmn" by simp
      from leaf_cond_not[OF n1 this] have
        "Suc n < length (domains zd1)"
        "ldns_dname_is_subdomain (dname (domains zd1 ! Suc n)) (dname dmn)" by auto
      then show ?thesis by (simp add: zd1_def shape_nth)
    next
      case False
      then show ?thesis by (simp add: domain_count_rrset_def)
    qed
    then have "leaf_free (shape (domains zd1)) n"
      unfolding sh1 using lf n by (intro leaf_free_keep) simp_all
    with r kd1 n1 names1 show ?thesis
      by (intro exI[of _ zd1]) simp
  qed
qed

lemma commit_loop_leaf_free:
  assumes C: "\<forall>d. dname (snd (C d)) = dname d"
  shows "commit_loop C zd (Some n) = Some (ODS_STATUS_OK, zd') \<Longrightarrow> n < length (domains zd) \<Longrightarrow>
     keys_distinct (shape (domains zd)) \<Longrightarrow> leaf_free (shape (domains zd)) (Suc n) \<Longrightarrow>
     leaf_free (shape (domains zd')) 0 \<and>
     set (map dname (domains zd')) \<subseteq> set (map dname (domains zd))"
proof (induction n arbitrary: zd)
  case 0
  from commit_step[OF "0.prems"(1,2) C "0.prems"(3,4)] obtain zdX where
    "commit_loop C zdX (ldns_rbtree_previous (Some 0)) = Some (ODS_STATUS_OK, zd')"
    "leaf_free (shape (domains zdX)) 0"
    "set (map dname (domains zdX)) \<subseteq> set (map dname (domains zd))" by blast
  then show ?case by (simp add: ldns_rbtree_previous_def commit_loop.simps)
next
  case (Suc n)
  from commit_step[OF Suc.prems(1,2) C Suc.prems(3,4)] obtain zdX where
    x: "commit_loop C zdX (ldns_rbtree_previous (Some (Suc n))) = Some (ODS_STATUS_OK, zd')"
    "Suc n \<le> length (domains zdX)" "keys_distinct (shape (domains zdX))"
    "leaf_free (shape (domains zdX)) (Suc n)"
    "set (map dname (domains zdX)) \<subseteq> set (map dname (domains zd))" by blast
  have "commit_loop C zdX (Some n) = Some (ODS_STATUS_OK, zd')"
    using x(1) by (simp add: ldns_rbtree_previous_def)
  from Suc.IH[OF this _ x(3,4)] x(2)
  have "leaf_free (shape (domains zd')) 0"
    and "set (map dname (domains zd')) \<subseteq> set (map dname (domains zdX))" by simp_all
  with x(5) show ?case by blast
qed

text \<open>
  Claim C7, as amended. \<open>zonedata_commit\<close> walks the tree from the last node to the first,
  commits every domain, and deletes a domain that is left without RRsets unless the next
  node of the tree is one of its subdomains. So when it returns \<open>ODS_STATUS_OK\<close>, every
  domain of the tree without RRsets is followed at once by one of its subdomains; and
  every name of the tree was in the tree before. The tree is in key order and the commit
  of a domain keeps its name.
\<close>

theorem commit_no_empty_leaf:
  assumes "zonedata_commit C zd = Some (ODS_STATUS_OK, zd')"
    and "\<forall>d. dname (snd (C d)) = dname d"
    and "sorted_wrt (\<lambda>a b. domain_compare (dname a) (dname b) < 0) (domains zd)"
  shows "(\<forall>j < length (domains zd'). domain_count_rrset (domains zd' ! j) = 0 \<longrightarrow>
            Suc j < length (domains zd') \<and>
            ldns_dname_is_subdomain (dname (domains zd' ! Suc j)) (dname (domains zd' ! j))) \<and>
         set (map dname (domains zd')) \<subseteq> set (map dname (domains zd))"
proof (cases "domains zd = []")
  case True
  with assms(1) show ?thesis
    by (simp add: zonedata_commit_def commit_loop.simps)
next
  case False
  then have run: "commit_loop C zd (Some (length (domains zd) - 1)) = Some (ODS_STATUS_OK, zd')"
    using assms(1) by (simp add: zonedata_commit_def ldns_rbtree_last_def)
  have kd: "keys_distinct (shape (domains zd))"
    unfolding keys_distinct_def
  proof (intro allI impI)
    fix i j
    assume a: "i < j \<and> j < length (shape (domains zd))"
    then have "domain_compare (dname (domains zd ! i)) (dname (domains zd ! j)) < 0"
      using assms(3) by (simp add: sorted_wrt_iff_nth_less)
    with a show "domain_compare (fst (shape (domains zd) ! i)) (fst (shape (domains zd) ! j)) \<noteq> 0"
      by (simp add: shape_nth)
  qed
  have lf: "leaf_free (shape (domains zd)) (Suc (length (domains zd) - 1))"
    using False by (auto simp: leaf_free_def)
  from commit_loop_leaf_free[OF assms(2) run _ kd lf] False
  have "leaf_free (shape (domains zd')) 0"
    and s: "set (map dname (domains zd')) \<subseteq> set (map dname (domains zd))" by simp_all
  then show ?thesis
    unfolding leaf_free_def by (auto simp: shape_nth domain_count_rrset_def)
qed

lemma domain_commit_spec_dname: "\<forall>d. dname (snd (domain_commit_spec d)) = dname d"
  by (simp add: domain_commit_spec_def)

lemma commit_www_del:
  "zonedata_commit domain_commit_spec zd_www_del = Some (ODS_STATUS_OK, zd_www_gone)"
  by code_simp

lemma sorted_www_del:
  "sorted_wrt (\<lambda>a b. domain_compare (dname a) (dname b) < 0) (domains zd_www_del)"
  by code_simp

theorem commit_no_empty_leaf_witness:
  "zonedata_commit domain_commit_spec zd_www_del = Some (ODS_STATUS_OK, zd_www_gone) \<and>
   map dname (domains zd_www_gone) = [[''example''], [''mail'', ''example'']] \<and>
   set (map dname (domains zd_www_gone)) \<subseteq> set (map dname (domains zd_www_del))"
proof -
  have "map dname (domains zd_www_gone) = [[''example''], [''mail'', ''example'']]"
    by code_simp
  with commit_no_empty_leaf[OF commit_www_del domain_commit_spec_dname sorted_www_del]
    commit_www_del
  show ?thesis by blast
qed

text \<open>
  Claim C7 as stated fails: after this commit, which returns \<open>ODS_STATUS_OK\<close>, the tree
  holds \<^verbatim>\<open>b.example.\<close> with no RRset, no counted subdomain and the status
  \<open>DOMAIN_STATUS_NONE\<close>. It stays because the next node, \<^verbatim>\<open>a.b.example.\<close>, is its
  subdomain.
\<close>

theorem commit_leaf_gc_counterexample:
  "zonedata_commit domain_commit_spec zd_b_del = Some (ODS_STATUS_OK, zd_b_committed) \<and>
   dname (domains zd_b_committed ! 1) = [''b'', ''example''] \<and>
   domain_count_rrset (domains zd_b_committed ! 1) = 0 \<and>
   subdomain_count (domains zd_b_committed ! 1) = 0 \<and>
   dstatus (domains zd_b_committed ! 1) = DOMAIN_STATUS_NONE"
  by code_simp

subsection \<open>Update\<close>

lemma update_loop_None: "update_loop U R zd None = Some (0, zd)"
  by (subst update_loop.simps) simp

lemma update_loop_fail:
  assumes "n < length (domains z)" and "U (domains z ! n) = (e, d)" and "e \<noteq> 0"
  shows "update_loop U R z (Some n) =
           Some (1, if e = 1 then z\<lparr>domains := (domains z)[n := d]\<rparr>
                    else zonedata_rollback R (z\<lparr>domains := (domains z)[n := d]\<rparr>))"
  using assms by (subst update_loop.simps) simp

lemma update_loop_advance:
  assumes "n < length (domains z)" and "U (domains z ! n) = (0, d)"
    and "update_advance (z\<lparr>domains := (domains z)[n := d]\<rparr>) n = Some (z2, node1)"
  shows "update_loop U R z (Some n) = update_loop U R z2 node1"
proof -
  let ?z1 = "z\<lparr>domains := (domains z)[n := d]\<rparr>"
  have d: "domains ?z1 ! n = d" using assms(1) by simp
  show ?thesis
    using assms d
    by (subst update_loop.simps)
       (auto simp: update_advance_def Let_def update_loop_None split: option.splits if_splits)
qed

lemma update_run_loop:
  "update_run U k z0 node0 = Some (z, node) \<Longrightarrow>
   update_loop U R z0 node0 = update_loop U R z node"
proof (induction k arbitrary: z0 node0)
  case 0
  then show ?case by simp
next
  case (Suc k)
  from Suc.prems obtain n d z2 node1 where n: "node0 = Some n" "n < length (domains z0)"
    and u: "U (domains z0 ! n) = (0, d)"
    and a: "update_advance (z0\<lparr>domains := (domains z0)[n := d]\<rparr>) n = Some (z2, node1)"
    and r: "update_run U k z2 node1 = Some (z, node)"
    by (auto split: option.splits if_splits prod.splits)
  from update_loop_advance[where U = U and R = R and z = z0 and n = n and d = d, OF n(2) u a]
    Suc.IH[OF r] n(1) show ?case by simp
qed

lemma update_advance_node:
  "update_advance z n = Some (z2, Some n1) \<Longrightarrow> n1 < length (domains z2)"
  by (auto simp: update_advance_def Let_def dest: search_Some_less split: option.splits if_splits)

lemma update_run_node:
  "update_run U k z0 node0 = Some (z, Some n) \<Longrightarrow>
   (\<forall>n0. node0 = Some n0 \<longrightarrow> n0 < length (domains z0)) \<Longrightarrow> n < length (domains z)"
proof (induction k arbitrary: z0 node0)
  case 0
  then show ?case by simp
next
  case (Suc k)
  from Suc.prems(1) obtain m d z2 node1
    where a: "update_advance (z0\<lparr>domains := (domains z0)[m := d]\<rparr>) m = Some (z2, node1)"
    and r: "update_run U k z2 node1 = Some (z, Some n)"
    by (auto split: option.splits if_splits prod.splits)
  have "\<forall>n0. node1 = Some n0 \<longrightarrow> n0 < length (domains z2)"
    using update_advance_node a by blast
  from Suc.IH[OF r this] show ?case .
qed

text \<open>
  Claim C8. When the serial is not advanced (\<open>zonedata_update_serial\<close> fails, or leaves
  the internal serial 0), \<open>zonedata_update\<close> returns 1 with the rollback of the zone data.
  Otherwise the loop runs from the first node. When, after any number of rounds in which
  the commit of the domain succeeded, the commit of the domain the loop is at fails,
  \<open>zonedata_update\<close> returns 1: for the status 1 of the commit with the zone data as those
  rounds and that commit left them and no rollback, so the zone is partially updated; for
  any other status with the rollback of these zone data. When the rounds reach the end
  of the tree, \<open>zonedata_update\<close> returns 0 with the zone data as the rounds left them.
\<close>

theorem update_failure:
  "(fst (zonedata_update_serial now datestamp zd sc) \<noteq> 0 \<or>
    internal_serial (snd (zonedata_update_serial now datestamp zd sc)) = 0 \<longrightarrow>
      zonedata_update now datestamp U R zd sc =
        Some (1, zonedata_rollback R (snd (zonedata_update_serial now datestamp zd sc)))) \<and>
   (\<forall>k z n e d.
      \<not> (fst (zonedata_update_serial now datestamp zd sc) \<noteq> 0 \<or>
         internal_serial (snd (zonedata_update_serial now datestamp zd sc)) = 0) \<and>
      update_run U k (snd (zonedata_update_serial now datestamp zd sc))
        (if domains (snd (zonedata_update_serial now datestamp zd sc)) \<noteq> []
         then ldns_rbtree_first (domains (snd (zonedata_update_serial now datestamp zd sc)))
         else None) = Some (z, Some n) \<and>
      U (domains z ! n) = (e, d) \<and> e \<noteq> 0 \<longrightarrow>
      zonedata_update now datestamp U R zd sc =
        Some (1, if e = 1 then z\<lparr>domains := (domains z)[n := d]\<rparr>
                 else zonedata_rollback R (z\<lparr>domains := (domains z)[n := d]\<rparr>))) \<and>
   (\<forall>k z.
      \<not> (fst (zonedata_update_serial now datestamp zd sc) \<noteq> 0 \<or>
         internal_serial (snd (zonedata_update_serial now datestamp zd sc)) = 0) \<and>
      update_run U k (snd (zonedata_update_serial now datestamp zd sc))
        (if domains (snd (zonedata_update_serial now datestamp zd sc)) \<noteq> []
         then ldns_rbtree_first (domains (snd (zonedata_update_serial now datestamp zd sc)))
         else None) = Some (z, None) \<longrightarrow>
      zonedata_update now datestamp U R zd sc = Some (0, z))"
proof -
  obtain error zd1 where s: "zonedata_update_serial now datestamp zd sc = (error, zd1)"
    by (cases "zonedata_update_serial now datestamp zd sc")
  let ?first = "if domains zd1 \<noteq> [] then ldns_rbtree_first (domains zd1) else None"
  have a: "error \<noteq> 0 \<or> internal_serial zd1 = 0 \<longrightarrow>
      zonedata_update now datestamp U R zd sc = Some (1, zonedata_rollback R zd1)"
    by (simp add: zonedata_update_def s)
  have l: "zonedata_update now datestamp U R zd sc = update_loop U R zd1 ?first"
    if "\<not> (error \<noteq> 0 \<or> internal_serial zd1 = 0)"
    using that by (simp add: zonedata_update_def s)
  have f: "\<forall>n0. ?first = Some n0 \<longrightarrow> n0 < length (domains zd1)"
    by (simp add: ldns_rbtree_first_def)
  have b: "zonedata_update now datestamp U R zd sc =
        Some (1, if e = 1 then z\<lparr>domains := (domains z)[n := d]\<rparr>
                 else zonedata_rollback R (z\<lparr>domains := (domains z)[n := d]\<rparr>))"
    if ok: "\<not> (error \<noteq> 0 \<or> internal_serial zd1 = 0)"
      and r: "update_run U k zd1 ?first = Some (z, Some n)"
      and u: "U (domains z ! n) = (e, d)" and e: "e \<noteq> 0" for k z n e d
  proof -
    have n: "n < length (domains z)" by (rule update_run_node[OF r f])
    from update_run_loop[OF r, of R]
      update_loop_fail[where U = U and R = R and z = z and n = n and e = e and d = d, OF n u e]
      l[OF ok]
    show ?thesis by simp
  qed
  have c: "zonedata_update now datestamp U R zd sc = Some (0, z)"
    if ok: "\<not> (error \<noteq> 0 \<or> internal_serial zd1 = 0)"
      and r: "update_run U k zd1 ?first = Some (z, None)" for k z
    using update_run_loop[OF r, of R] l[OF ok] by (simp add: update_loop_None)
  show ?thesis
    unfolding s fst_conv snd_conv
    apply (intro conjI)
      apply (rule a)
     apply (intro allI impI, elim conjE, erule (3) b)
    apply (intro allI impI, elim conjE, erule (1) c)
    done
qed

lemma serial_keep_pending:
  "zonedata_update_serial 1000 0 zd_pending sc_keep = (1, zd_pending)"
  by code_simp

lemma serial_two_pending:
  "zonedata_update_serial 1000 0 zd_two_pending sc_unixtime
     = (0, zd_two_pending\<lparr>internal_serial := 1000\<rparr>)"
  by (simp add: zonedata_update_serial_def serial_store_def ods_max_def DNS_SERIAL_GT_def
      zd_two_pending_def mk_zonedata_def sc_unixtime_def Let_def)

lemma run_two_pending:
  "update_run (commit_fails_at [''www'', ''example''] e) 2
     (zd_two_pending\<lparr>internal_serial := 1000\<rparr>) (Some 0)
   = Some ((mk_zonedata [d_apex, d_mail_committed, d_www_pending])\<lparr>internal_serial := 1000\<rparr>,
           Some 2)"
  by (simp add: numeral_2_eq_2 zd_two_pending_def mk_zonedata_def commit_fails_at_def
      domain_commit_spec_def rrset_commit_spec_def d_apex_def d_mail_pending_def d_mail_def
      d_mail_committed_def d_www_pending_def d_www_def mk_domain_def mk_rrset_def
      update_advance_def domain_count_rrset_def ldns_rbtree_next_def Let_def
      cmp_example_mail cmp_example_www cmp_mail_www cmp_www_mail domain_compare_refl)

lemma rollback_two_pending:
  "zonedata_rollback domain_rollback_spec
     ((mk_zonedata [d_apex, d_mail_committed, d_www_pending])\<lparr>internal_serial := 1000\<rparr>)
   = (mk_zonedata [d_apex, d_mail_committed, d_www])\<lparr>internal_serial := 1000\<rparr>"
  by code_simp

theorem update_failure_witness:
  "zonedata_update 1000 0 commit_compare_fails domain_rollback_spec zd_pending sc_keep
     = Some (1, zonedata_rollback domain_rollback_spec zd_pending) \<and>
   zonedata_update 1000 0 (commit_fails_at [''www'', ''example''] 1) domain_rollback_spec
       zd_two_pending sc_unixtime
     = Some (1, (mk_zonedata [d_apex, d_mail_committed, d_www_pending])\<lparr>internal_serial := 1000\<rparr>) \<and>
   zonedata_update 1000 0 (commit_fails_at [''www'', ''example''] 2) domain_rollback_spec
       zd_two_pending sc_unixtime
     = Some (1, (mk_zonedata [d_apex, d_mail_committed, d_www])\<lparr>internal_serial := 1000\<rparr>)"
proof -
  let ?start = "zd_two_pending\<lparr>internal_serial := 1000\<rparr>"
  let ?stop = "(mk_zonedata [d_apex, d_mail_committed, d_www_pending])\<lparr>internal_serial := 1000\<rparr>"
  note k = update_failure[of 1000 0 zd_pending sc_keep commit_compare_fails domain_rollback_spec,
      unfolded serial_keep_pending fst_conv snd_conv]
  note u1 = update_failure[of 1000 0 zd_two_pending sc_unixtime
      "commit_fails_at [''www'', ''example''] 1" domain_rollback_spec,
      unfolded serial_two_pending fst_conv snd_conv]
  note u2 = update_failure[of 1000 0 zd_two_pending sc_unixtime
      "commit_fails_at [''www'', ''example''] 2" domain_rollback_spec,
      unfolded serial_two_pending fst_conv snd_conv]
  have a: "zonedata_update 1000 0 commit_compare_fails domain_rollback_spec zd_pending sc_keep
     = Some (1, zonedata_rollback domain_rollback_spec zd_pending)"
    using k by simp
  have i: "\<not> (0 \<noteq> (0::int) \<or> internal_serial ?start = 0)" by simp
  have f: "(if domains ?start \<noteq> [] then ldns_rbtree_first (domains ?start) else None) = Some 0"
    by (simp add: zd_two_pending_def mk_zonedata_def ldns_rbtree_first_def)
  have w: "commit_fails_at [''www'', ''example''] e (domains ?stop ! 2) = (e, d_www_pending)" for e
    by (simp add: commit_fails_at_def mk_zonedata_def d_www_pending_def d_www_def mk_domain_def)
  have zeq: "?stop\<lparr>domains := (domains ?stop)[2 := d_www_pending]\<rparr> = ?stop"
    by (simp add: mk_zonedata_def)
  have b: "zonedata_update 1000 0 (commit_fails_at [''www'', ''example''] 1) domain_rollback_spec
      zd_two_pending sc_unixtime = Some (1, ?stop)"
    using u1[THEN conjunct2, THEN conjunct1, rule_format, of 2 ?stop 2 1 d_www_pending]
      i f run_two_pending[of 1] w[of 1] zeq by simp
  have c: "zonedata_update 1000 0 (commit_fails_at [''www'', ''example''] 2) domain_rollback_spec
      zd_two_pending sc_unixtime
      = Some (1, (mk_zonedata [d_apex, d_mail_committed, d_www])\<lparr>internal_serial := 1000\<rparr>)"
    using u2[THEN conjunct2, THEN conjunct1, rule_format, of 2 ?stop 2 2 d_www_pending]
      i f run_two_pending[of 2] w[of 2] zeq rollback_two_pending by simp
  from a b c show ?thesis by simp
qed

subsection \<open>NSEC records\<close>

lemma nsecify_next_spec:
  "nsecify_next tree apex node = Some y \<Longrightarrow> next_spec tree apex node y"
  apply (erule nsecify_next.raw_induct[rotated])
  subgoal premises 1 for f tree apex node y
  proof (cases node)
    case None
    show ?thesis
    proof (cases apex)
      case N2: None
      with None 1(2) show ?thesis by (auto simp: next_spec_def)
    next
      case (Some a)
      show ?thesis
      proof (cases "a < length tree \<and> \<not> nsecify_skip (tree ! a)")
        case True
        with None Some 1(2) show ?thesis by (auto simp: next_spec_def)
      next
        case False
        with None Some 1(2) have "f tree apex None = Some y"
          by (auto simp: ldns_rbtree_next_def split: if_splits)
        from 1(1)[OF this] None show ?thesis by simp
      qed
    qed
  next
    case (Some m)
    show ?thesis
    proof (cases "m < length tree")
      case False
      with Some 1(2) show ?thesis by simp
    next
      case lt: True
      show ?thesis
      proof (cases "nsecify_skip (tree ! m)")
        case False
        with Some lt 1(2) show ?thesis by (auto simp: next_spec_def)
      next
        case True
        with Some lt 1(2) have r: "f tree apex (ldns_rbtree_next tree (Some m)) = Some y"
          by simp
        note ih = 1(1)[OF r]
        show ?thesis
        proof (cases y)
          case (Inl e)
          then show ?thesis by (simp add: next_spec_def)
        next
          case (Inr p)
          obtain node1 to where p: "p = (node1, to)" by (cases p)
          from ih Inr p have a: "to < length tree" "\<not> nsecify_skip (tree ! to)"
            by (simp_all add: next_spec_def)
          from ih Inr p have b:
            "(\<exists>k. ldns_rbtree_next tree (Some m) = Some k \<and> node1 = Some to \<and> k \<le> to \<and>
                (\<forall>j. k \<le> j \<and> j < to \<longrightarrow> nsecify_skip (tree ! j))) \<or>
             (node1 = None \<and> apex = Some to \<and>
              (\<forall>k j. ldns_rbtree_next tree (Some m) = Some k \<and> k \<le> j \<and> j < length tree
                  \<longrightarrow> nsecify_skip (tree ! j)))"
            by (simp add: next_spec_def)
          then show ?thesis
          proof
            assume "\<exists>k. ldns_rbtree_next tree (Some m) = Some k \<and> node1 = Some to \<and> k \<le> to \<and>
                (\<forall>j. k \<le> j \<and> j < to \<longrightarrow> nsecify_skip (tree ! j))"
            then obtain k where k: "ldns_rbtree_next tree (Some m) = Some k" "node1 = Some to"
              "k \<le> to" "\<forall>j. k \<le> j \<and> j < to \<longrightarrow> nsecify_skip (tree ! j)" by blast
            from k(1) have ke: "k = Suc m" by (auto simp: ldns_rbtree_next_def split: if_splits)
            have "\<forall>j. m \<le> j \<and> j < to \<longrightarrow> nsecify_skip (tree ! j)"
            proof (intro allI impI)
              fix j assume "m \<le> j \<and> j < to"
              then have "j = m \<or> (k \<le> j \<and> j < to)" using ke by auto
              with True k(4) show "nsecify_skip (tree ! j)" by auto
            qed
            with a k ke Some Inr p show ?thesis by (simp add: next_spec_def)
          next
            assume c: "node1 = None \<and> apex = Some to \<and>
              (\<forall>k j. ldns_rbtree_next tree (Some m) = Some k \<and> k \<le> j \<and> j < length tree
                  \<longrightarrow> nsecify_skip (tree ! j))"
            have "\<forall>j. m \<le> j \<and> j < length tree \<longrightarrow> nsecify_skip (tree ! j)"
            proof (intro allI impI)
              fix j assume j: "m \<le> j \<and> j < length tree"
              show "nsecify_skip (tree ! j)"
              proof (cases "j = m")
                case True
                with \<open>nsecify_skip (tree ! m)\<close> show ?thesis by simp
              next
                case False
                with j have "Suc m \<le> j" "Suc m < length tree" by auto
                then have "ldns_rbtree_next tree (Some m) = Some (Suc m)"
                  by (simp add: ldns_rbtree_next_def)
                with c j \<open>Suc m \<le> j\<close> show ?thesis by blast
              qed
            qed
            with a c Some Inr p show ?thesis by (simp add: next_spec_def)
          qed
        qed
      qed
    qed
  qed
  done

lemma nsecify_next_total:
  assumes "(\<exists>a. apex = Some a \<and> a < length tree \<and> \<not> nsecify_skip (tree ! a)) \<or>
           (\<exists>j. m \<le> j \<and> j < length tree \<and> \<not> nsecify_skip (tree ! j))"
    and "m < length tree"
  shows "\<exists>r. nsecify_next tree apex (Some m) = Some (Inr r)"
  using assms
proof (induction "length tree - m" arbitrary: m)
  case 0
  then show ?case by simp
next
  case (Suc k)
  show ?case
  proof (cases "nsecify_skip (tree ! m)")
    case False
    with Suc.prems(2) show ?thesis by (subst nsecify_next.simps) simp
  next
    case True
    then have u: "nsecify_next tree apex (Some m) =
        nsecify_next tree apex (ldns_rbtree_next tree (Some m))"
      using Suc.prems(2) by (subst nsecify_next.simps) simp
    show ?thesis
    proof (cases "Suc m < length tree")
      case lt: True
      have k: "k = length tree - Suc m" using Suc.hyps(2) by simp
      have "(\<exists>a. apex = Some a \<and> a < length tree \<and> \<not> nsecify_skip (tree ! a)) \<or>
           (\<exists>j. Suc m \<le> j \<and> j < length tree \<and> \<not> nsecify_skip (tree ! j))"
        using Suc.prems(1) True by (metis Suc_leI le_neq_implies_less)
      from Suc.hyps(1)[OF k this lt] u lt show ?thesis
        by (simp add: ldns_rbtree_next_def)
    next
      case False
      then have last: "\<forall>j. m \<le> j \<and> j < length tree \<longrightarrow> j = m" using Suc.prems(2) by auto
      with Suc.prems(1) True obtain a where a: "apex = Some a" "a < length tree"
        "\<not> nsecify_skip (tree ! a)" by blast
      have "nsecify_next tree apex None = Some (Inr (None, a))"
        using a by (subst nsecify_next.simps) simp
      with u False show ?thesis by (simp add: ldns_rbtree_next_def)
    qed
  qed
qed

lemma nsecify_next_total_None:
  assumes "apex = Some a" "a < length tree" "\<not> nsecify_skip (tree ! a)"
  shows "nsecify_next tree apex None = Some (Inr (None, a))"
  using assms by (subst nsecify_next.simps) simp

lemma core_length: "map core ds' = map core ds \<Longrightarrow> length ds' = length ds"
  using map_eq_imp_length_eq by blast

lemma core_nth:
  assumes "map core ds' = map core ds" and "i < length ds"
  shows "core (ds' ! i) = core (ds ! i)"
proof -
  have "map core ds' ! i = map core ds ! i" using assms(1) by simp
  then show ?thesis using assms(2) core_length[OF assms(1)] by simp
qed

lemma skip_core: "core d' = core d \<Longrightarrow> nsecify_skip d' = nsecify_skip d"
  by (simp add: core_def nsecify_skip_def domain_count_rrset_def)

lemma retained_core:
  assumes "map core ds' = map core ds"
  shows "retained ds' = retained ds"
proof
  fix j
  show "retained ds' j = retained ds j"
  proof (cases "j < length ds")
    case True
    from skip_core[OF core_nth[OF assms True]] True core_length[OF assms]
    show ?thesis by (simp add: retained_def)
  next
    case False
    then show ?thesis using core_length[OF assms] by (simp add: retained_def)
  qed
qed

lemma is_apex_core:
  assumes "map core ds' = map core ds"
  shows "is_apex ds' = is_apex ds"
proof
  fix j
  show "is_apex ds' j = is_apex ds j"
  proof (cases "j < length ds")
    case True
    from core_nth[OF assms True] True core_length[OF assms]
    show ?thesis by (simp add: is_apex_def core_def)
  next
    case False
    then show ?thesis using core_length[OF assms] by (simp add: is_apex_def)
  qed
qed

lemma dname_core:
  "map core ds' = map core ds \<Longrightarrow> i < length ds \<Longrightarrow> dname (ds' ! i) = dname (ds ! i)"
  using core_nth[of ds' ds i] by (simp add: core_def)

lemma wrap_ok_core:
  assumes "map core ds' = map core ds"
  shows "wrap_ok ds' = wrap_ok ds"
  unfolding wrap_ok_def retained_core[OF assms] is_apex_core[OF assms] ..

lemma target_ok_core:
  assumes "map core ds' = map core ds"
  shows "target_ok ds' = target_ok ds"
  unfolding target_ok_def retained_core[OF assms] wrap_ok_core[OF assms] ..

lemma loop_pre_core:
  assumes "map core ds' = map core ds"
  shows "loop_pre ds' = loop_pre ds"
  unfolding loop_pre_def retained_core[OF assms] is_apex_core[OF assms] ..

lemma core_update: "core v = core (ds ! n) \<Longrightarrow> map core (ds[n := v]) = map core ds"
  by (rule map_key_update)

lemma pre_skip_not_apex:
  "loop_pre ds apex n \<Longrightarrow> \<not> retained ds n \<Longrightarrow> \<not> is_apex ds n"
  by (auto simp: loop_pre_def)

lemma pre_skip:
  assumes "loop_pre ds apex n" and "\<not> retained ds n"
  shows "loop_pre ds apex (Suc n)"
proof -
  have "apex \<noteq> None \<or> (\<exists>j. Suc n \<le> j \<and> is_apex ds j) \<or> (\<forall>j. Suc n \<le> j \<longrightarrow> \<not> retained ds j)"
  proof -
    from assms(1) consider "apex \<noteq> None" | j where "n \<le> j" "is_apex ds j"
      | "\<forall>j. n \<le> j \<longrightarrow> \<not> retained ds j"
      unfolding loop_pre_def by blast
    then show ?thesis
    proof cases
      case 1 then show ?thesis by simp
    next
      case 2
      with assms have "j \<noteq> n" using pre_skip_not_apex by blast
      with 2 have "Suc n \<le> j" by simp
      with 2 show ?thesis by blast
    next
      case 3 then show ?thesis by auto
    qed
  qed
  with assms(1) show ?thesis unfolding loop_pre_def by blast
qed

lemma post_skip:
  assumes "loop_pre ds apex n" and "\<not> retained ds n" and "loop_post ds apex (Suc n) ds'"
  shows "loop_post ds apex n ds'"
proof -
  have w: "wrap_ok ds apex (Suc n) t \<Longrightarrow> wrap_ok ds apex n t" for t
  proof -
    assume "wrap_ok ds apex (Suc n) t"
    then consider "Suc n \<le> t \<and> is_apex ds t \<and> (\<forall>j. t < j \<and> retained ds j \<longrightarrow> \<not> is_apex ds j)"
      | "apex = Some t \<and> (\<forall>j. Suc n \<le> j \<and> retained ds j \<longrightarrow> \<not> is_apex ds j)"
      unfolding wrap_ok_def by blast
    then show ?thesis
    proof cases
      case 1 then show ?thesis unfolding wrap_ok_def by auto
    next
      case 2
      have "\<forall>j. n \<le> j \<and> retained ds j \<longrightarrow> \<not> is_apex ds j"
      proof (intro allI impI)
        fix j assume j: "n \<le> j \<and> retained ds j"
        with assms(2) have "j \<noteq> n" by auto
        with j have "Suc n \<le> j" by simp
        with 2 j show "\<not> is_apex ds j" by blast
      qed
      with 2 show ?thesis unfolding wrap_ok_def by blast
    qed
  qed
  have t: "target_ok ds apex (Suc n) i t \<Longrightarrow> target_ok ds apex n i t" for i t
    unfolding target_ok_def using w by blast
  have a: "map core ds' = map core ds" using assms(3) by (simp add: loop_post_def)
  have b: "\<forall>i. i < length ds \<and> (i < n \<or> \<not> retained ds i) \<longrightarrow> ds' ! i = ds ! i"
    using assms(3) unfolding loop_post_def by (metis less_SucI)
  have c: "\<forall>i. n \<le> i \<and> retained ds i \<longrightarrow>
        (\<exists>t. target_ok ds apex n i t \<and>
             map_option nsec_next (nsec_rrset (ds' ! i)) = Some (dname (ds ! t)))"
  proof (intro allI impI)
    fix i assume i: "n \<le> i \<and> retained ds i"
    with assms(2) have "i \<noteq> n" by auto
    with i have "Suc n \<le> i \<and> retained ds i" by simp
    with assms(3) obtain t where "target_ok ds apex (Suc n) i t"
      "map_option nsec_next (nsec_rrset (ds' ! i)) = Some (dname (ds ! t))"
      unfolding loop_post_def by blast
    with t show "\<exists>t. target_ok ds apex n i t \<and>
             map_option nsec_next (nsec_rrset (ds' ! i)) = Some (dname (ds ! t))" by blast
  qed
  from a b c show ?thesis unfolding loop_post_def by blast
qed

lemma post_skip_end:
  assumes "\<not> retained ds n" and "Suc n = length ds"
  shows "loop_post ds apex n ds"
proof -
  have "\<forall>i. n \<le> i \<longrightarrow> \<not> retained ds i"
  proof (intro allI impI)
    fix i assume "n \<le> i"
    show "\<not> retained ds i"
    proof (cases "i = n")
      case True with assms(1) show ?thesis by simp
    next
      case False
      with \<open>n \<le> i\<close> assms(2) have "\<not> i < length ds" by simp
      then show ?thesis by (simp add: retained_def)
    qed
  qed
  then show ?thesis unfolding loop_post_def by blast
qed


lemma pre_next:
  assumes pre: "loop_pre ds apex n" and n: "retained ds n" and lt: "n < to"
    and btw: "\<forall>j. n < j \<and> j < to \<longrightarrow> \<not> retained ds j"
    and a1: "apex1 = (if is_apex ds n then Some n else apex)"
  shows "loop_pre ds apex1 to"
proof -
  have p1: "\<forall>a. apex = Some a \<longrightarrow> retained ds a" and p2: "\<forall>j. is_apex ds j \<longrightarrow> retained ds j"
    and p3: "apex \<noteq> None \<or> (\<exists>j. n \<le> j \<and> is_apex ds j) \<or> (\<forall>j. n \<le> j \<longrightarrow> \<not> retained ds j)"
    using pre unfolding loop_pre_def by blast+
  have q1: "\<forall>a. apex1 = Some a \<longrightarrow> retained ds a" using a1 p1 n by auto
  have q3: "apex1 \<noteq> None \<or> (\<exists>j. to \<le> j \<and> is_apex ds j)"
  proof (cases "apex1 = None")
    case False then show ?thesis by simp
  next
    case True
    with a1 have na: "\<not> is_apex ds n" and "apex = None" by (auto split: if_splits)
    with p3 n obtain j where j: "n \<le> j" "is_apex ds j" by blast
    with na have "n < j" by (cases "j = n") auto
    moreover from j p2 have "retained ds j" by blast
    ultimately have "to \<le> j" using btw by (meson not_le)
    with j show ?thesis by blast
  qed
  from q1 p2 q3 show ?thesis unfolding loop_pre_def by blast
qed

lemma wrap_next:
  assumes n: "retained ds n" and lt: "n < to"
    and btw: "\<forall>j. n < j \<and> j < to \<longrightarrow> \<not> retained ds j"
    and a1: "apex1 = (if is_apex ds n then Some n else apex)"
    and w: "wrap_ok ds apex1 to t"
  shows "wrap_ok ds apex n t"
proof -
  have ge: "to \<le> j" if "n < j" "retained ds j" for j
    using that btw by (meson not_le)
  from w consider "to \<le> t \<and> is_apex ds t \<and> (\<forall>j. t < j \<and> retained ds j \<longrightarrow> \<not> is_apex ds j)"
    | "apex1 = Some t \<and> (\<forall>j. to \<le> j \<and> retained ds j \<longrightarrow> \<not> is_apex ds j)"
    unfolding wrap_ok_def by blast
  then show ?thesis
  proof cases
    case 1
    with lt have "n \<le> t" by simp
    with 1 show ?thesis unfolding wrap_ok_def by blast
  next
    case 2
    show ?thesis
    proof (cases "is_apex ds n")
      case True
      with a1 2 have "t = n" by simp
      moreover have "\<forall>j. n < j \<and> retained ds j \<longrightarrow> \<not> is_apex ds j" using ge 2 by blast
      ultimately show ?thesis using True unfolding wrap_ok_def by blast
    next
      case False
      with a1 2 have "apex = Some t" by simp
      moreover have "\<forall>j. n \<le> j \<and> retained ds j \<longrightarrow> \<not> is_apex ds j"
      proof (intro allI impI)
        fix j assume j: "n \<le> j \<and> retained ds j"
        show "\<not> is_apex ds j"
        proof (cases "j = n")
          case True with False show ?thesis by simp
        next
          case F: False
          with j have "n < j" by simp
          with j ge 2 show ?thesis by blast
        qed
      qed
      ultimately show ?thesis unfolding wrap_ok_def by blast
    qed
  qed
qed

lemma post_next:
  assumes n: "retained ds n" and lt: "n < to" and to: "retained ds to"
    and btw: "\<forall>j. n < j \<and> j < to \<longrightarrow> \<not> retained ds j"
    and a1: "apex1 = (if is_apex ds n then Some n else apex)"
    and c1: "core d1 = core (ds ! n)"
    and nx: "map_option nsec_next (nsec_rrset d1) = Some (dname (ds ! to))"
    and post: "loop_post (ds[n := d1]) apex1 to ds'"
  shows "loop_post ds apex n ds'"
proof -
  let ?ds1 = "ds[n := d1]"
  have m: "map core ?ds1 = map core ds" using c1 by (rule core_update)
  have len: "length ?ds1 = length ds" by simp
  have nl: "n < length ds" using n by (simp add: retained_def)
  have ge: "to \<le> j" if "n < j" "retained ds j" for j
    using that btw by (meson not_le)
  have q1: "map core ds' = map core ?ds1"
    and q2: "\<forall>i. i < length ?ds1 \<and> (i < to \<or> \<not> retained ?ds1 i) \<longrightarrow> ds' ! i = ?ds1 ! i"
    and q3: "\<forall>i. to \<le> i \<and> retained ?ds1 i \<longrightarrow>
        (\<exists>t. target_ok ?ds1 apex1 to i t \<and>
             map_option nsec_next (nsec_rrset (ds' ! i)) = Some (dname (?ds1 ! t)))"
    using post unfolding loop_post_def by blast+
  have a: "map core ds' = map core ds" using q1 m by simp
  have b: "\<forall>i. i < length ds \<and> (i < n \<or> \<not> retained ds i) \<longrightarrow> ds' ! i = ds ! i"
  proof (intro allI impI)
    fix i assume i: "i < length ds \<and> (i < n \<or> \<not> retained ds i)"
    with n have ne: "i \<noteq> n" by auto
    from i lt have "i < length ?ds1 \<and> (i < to \<or> \<not> retained ?ds1 i)"
      unfolding retained_core[OF m] by auto
    with q2 have "ds' ! i = ?ds1 ! i" by blast
    with ne show "ds' ! i = ds ! i" by simp
  qed
  have c: "\<forall>i. n \<le> i \<and> retained ds i \<longrightarrow>
        (\<exists>t. target_ok ds apex n i t \<and>
             map_option nsec_next (nsec_rrset (ds' ! i)) = Some (dname (ds ! t)))"
  proof (intro allI impI)
    fix i assume i: "n \<le> i \<and> retained ds i"
    show "\<exists>t. target_ok ds apex n i t \<and>
             map_option nsec_next (nsec_rrset (ds' ! i)) = Some (dname (ds ! t))"
    proof (cases "i = n")
      case True
      from nl lt q2 have "ds' ! n = ?ds1 ! n" by simp
      with nl have "ds' ! n = d1" by simp
      with nx have "map_option nsec_next (nsec_rrset (ds' ! i)) = Some (dname (ds ! to))"
        using True by simp
      moreover have "target_ok ds apex n i to"
        unfolding target_ok_def using True to lt btw by blast
      ultimately show ?thesis by blast
    next
      case False
      with i have "n < i" by simp
      with i ge have "to \<le> i" by blast
      with i q3 obtain t where t: "target_ok ?ds1 apex1 to i t"
        "map_option nsec_next (nsec_rrset (ds' ! i)) = Some (dname (?ds1 ! t))"
        unfolding retained_core[OF m] by blast
      from t(1) have t1: "target_ok ds apex1 to i t" unfolding target_ok_core[OF m] .
      then have rt: "retained ds t" by (simp add: target_ok_def)
      then have "t < length ds" by (simp add: retained_def)
      from dname_core[OF m this] t(2)
      have e: "map_option nsec_next (nsec_rrset (ds' ! i)) = Some (dname (ds ! t))" by simp
      from t1 have "target_ok ds apex n i t"
        unfolding target_ok_def using wrap_next[OF n lt btw a1] by blast
      with e show ?thesis by blast
    qed
  qed
  from a b c show ?thesis unfolding loop_post_def by blast
qed

lemma post_wrap:
  assumes n: "retained ds n" and to: "retained ds to"
    and last: "\<forall>j. n < j \<longrightarrow> \<not> retained ds j"
    and a1: "(if is_apex ds n then Some n else apex) = Some to"
    and c1: "core d1 = core (ds ! n)"
    and nx: "map_option nsec_next (nsec_rrset d1) = Some (dname (ds ! to))"
  shows "loop_post ds apex n (ds[n := d1])"
proof -
  have nl: "n < length ds" using n by (simp add: retained_def)
  have a: "map core (ds[n := d1]) = map core ds" using c1 by (rule core_update)
  have b: "\<forall>i. i < length ds \<and> (i < n \<or> \<not> retained ds i) \<longrightarrow> ds[n := d1] ! i = ds ! i"
  proof (intro allI impI)
    fix i assume i: "i < length ds \<and> (i < n \<or> \<not> retained ds i)"
    with n have "i \<noteq> n" by auto
    then show "ds[n := d1] ! i = ds ! i" by simp
  qed
  have w: "wrap_ok ds apex n to"
  proof (cases "is_apex ds n")
    case True
    with a1 have "to = n" by simp
    with True last show ?thesis unfolding wrap_ok_def by blast
  next
    case False
    with a1 have "apex = Some to" by simp
    moreover have "\<forall>j. n \<le> j \<and> retained ds j \<longrightarrow> \<not> is_apex ds j"
    proof (intro allI impI)
      fix j assume j: "n \<le> j \<and> retained ds j"
      with last have "j = n" using le_neq_implies_less by blast
      with False show "\<not> is_apex ds j" by simp
    qed
    ultimately show ?thesis unfolding wrap_ok_def by blast
  qed
  have t: "target_ok ds apex n n to" unfolding target_ok_def using to last w by blast
  have c: "\<forall>i. n \<le> i \<and> retained ds i \<longrightarrow>
        (\<exists>t. target_ok ds apex n i t \<and>
             map_option nsec_next (nsec_rrset (ds[n := d1] ! i)) = Some (dname (ds ! t)))"
  proof (intro allI impI)
    fix i assume i: "n \<le> i \<and> retained ds i"
    with last have "i = n" using le_neq_implies_less by blast
    with t nx nl show "\<exists>t. target_ok ds apex n i t \<and>
             map_option nsec_next (nsec_rrset (ds[n := d1] ! i)) = Some (dname (ds ! t))"
      by auto
  qed
  from a b c show ?thesis unfolding loop_post_def by blast
qed

lemma next_cases:
  assumes n: "retained ds n" and pre: "loop_pre ds apex n"
    and a1: "apex1 = (if is_apex ds n then Some n else apex)"
  shows "\<exists>node1 to. nsecify_next ds apex1 (ldns_rbtree_next ds (Some n)) = Some (Inr (node1, to)) \<and>
           retained ds to \<and>
           ((node1 = Some to \<and> n < to \<and> (\<forall>j. n < j \<and> j < to \<longrightarrow> \<not> retained ds j)) \<or>
            (node1 = None \<and> apex1 = Some to \<and> (\<forall>j. n < j \<longrightarrow> \<not> retained ds j)))"
proof -
  have nl: "n < length ds" using n by (simp add: retained_def)
  have p1: "\<forall>a. apex = Some a \<longrightarrow> retained ds a" and p2: "\<forall>j. is_apex ds j \<longrightarrow> retained ds j"
    and p3: "apex \<noteq> None \<or> (\<exists>j. n \<le> j \<and> is_apex ds j) \<or> (\<forall>j. n \<le> j \<longrightarrow> \<not> retained ds j)"
    using pre unfolding loop_pre_def by blast+
  have tot: "(\<exists>a. apex1 = Some a \<and> retained ds a) \<or> (\<exists>j. Suc n \<le> j \<and> retained ds j)"
  proof (cases "is_apex ds n")
    case True with a1 n show ?thesis by simp
  next
    case False
    show ?thesis
    proof (cases apex)
      case (Some a) with False a1 p1 show ?thesis by simp
    next
      case None
      with p3 n obtain j where j: "n \<le> j" "is_apex ds j" by blast
      with False have "Suc n \<le> j" by (cases "j = n") auto
      with j p2 show ?thesis by blast
    qed
  qed
  show ?thesis
  proof (cases "Suc n < length ds")
    case True
    then have nx: "ldns_rbtree_next ds (Some n) = Some (Suc n)" by (simp add: ldns_rbtree_next_def)
    from tot have "(\<exists>a. apex1 = Some a \<and> a < length ds \<and> \<not> nsecify_skip (ds ! a)) \<or>
           (\<exists>j. Suc n \<le> j \<and> j < length ds \<and> \<not> nsecify_skip (ds ! j))"
      unfolding retained_def by blast
    from nsecify_next_total[OF this True] obtain node1 to
      where r: "nsecify_next ds apex1 (Some (Suc n)) = Some (Inr (node1, to))" by force
    from nsecify_next_spec[OF r]
    have to: "retained ds to"
      and alt: "(node1 = Some to \<and> Suc n \<le> to \<and> (\<forall>j. Suc n \<le> j \<and> j < to \<longrightarrow> nsecify_skip (ds ! j))) \<or>
                (node1 = None \<and> apex1 = Some to \<and>
                 (\<forall>j. Suc n \<le> j \<and> j < length ds \<longrightarrow> nsecify_skip (ds ! j)))"
      unfolding next_spec_def retained_def by auto
    from alt have "(node1 = Some to \<and> n < to \<and> (\<forall>j. n < j \<and> j < to \<longrightarrow> \<not> retained ds j)) \<or>
            (node1 = None \<and> apex1 = Some to \<and> (\<forall>j. n < j \<longrightarrow> \<not> retained ds j))"
      unfolding retained_def by (auto simp: Suc_le_eq)
    with r to nx show ?thesis by simp
  next
    case False
    with nl have nx: "ldns_rbtree_next ds (Some n) = None" by (simp add: ldns_rbtree_next_def)
    have last: "\<forall>j. n < j \<longrightarrow> \<not> retained ds j" using False by (auto simp: retained_def)
    with tot obtain a where a: "apex1 = Some a" "retained ds a" by (auto simp: Suc_le_eq)
    then have "a < length ds" "\<not> nsecify_skip (ds ! a)" by (simp_all add: retained_def)
    from nsecify_next_total_None[OF a(1) this]
    have "nsecify_next ds apex1 None = Some (Inr (None, a))" .
    with nx a last show ?thesis by simp
  qed
qed

lemma nsecify_loop_None:
  "nsecify_loop N zd klass stats apex None = Some (ODS_STATUS_OK, zd, stats)"
  by (subst nsecify_loop.simps) simp

lemma nsecify_loop_skip:
  assumes "n < length (domains zd)" and "nsecify_skip (domains zd ! n)"
  shows "nsecify_loop N zd klass stats apex (Some n) =
         nsecify_loop N zd klass stats
           (if dstatus (domains zd ! n) = DOMAIN_STATUS_APEX then Some n else apex)
           (ldns_rbtree_next (domains zd) (Some n))"
  using assms by (subst nsecify_loop.simps) (simp add: Let_def)

lemma nsecify_loop_retained:
  assumes "n < length (domains zd)" and "\<not> nsecify_skip (domains zd ! n)"
    and "nsecify_next (domains zd)
           (if dstatus (domains zd ! n) = DOMAIN_STATUS_APEX then Some n else apex)
           (ldns_rbtree_next (domains zd) (Some n)) = Some (Inr (node1, to))"
    and "fst (N (domains zd ! n) (domains zd ! to) (default_ttl zd) klass stats) = 0"
  shows "nsecify_loop N zd klass stats apex (Some n) =
         nsecify_loop N
           (zd\<lparr>domains := (domains zd)[n := fst (snd (N (domains zd ! n) (domains zd ! to)
                                                      (default_ttl zd) klass stats))]\<rparr>)
           klass
           (snd (snd (N (domains zd ! n) (domains zd ! to) (default_ttl zd) klass stats)))
           (if dstatus (domains zd ! n) = DOMAIN_STATUS_APEX then Some n else apex)
           node1"
proof -
  obtain r d s where e: "N (domains zd ! n) (domains zd ! to) (default_ttl zd) klass stats = (r, d, s)"
    by (cases "N (domains zd ! n) (domains zd ! to) (default_ttl zd) klass stats")
  with assms(4) have "r = 0" by simp
  with e assms(1-3) show ?thesis by (subst nsecify_loop.simps) (simp add: Let_def)
qed

lemma nsecify_loop_correct:
  assumes ok: "nsecify_ok N"
  shows "n < length (domains zd) \<Longrightarrow> loop_pre (domains zd) apex n \<Longrightarrow>
         \<exists>zd' stats'. nsecify_loop N zd klass stats apex (Some n) = Some (ODS_STATUS_OK, zd', stats') \<and>
                      loop_post (domains zd) apex n (domains zd')"
proof (induction "length (domains zd) - n" arbitrary: zd stats apex n rule: less_induct)
  case less
  let ?ds = "domains zd"
  let ?a1 = "if dstatus (?ds ! n) = DOMAIN_STATUS_APEX then Some n else apex"
  have nl: "n < length ?ds" by fact
  have pre: "loop_pre ?ds apex n" by fact
  have ia: "is_apex ?ds n \<longleftrightarrow> dstatus (?ds ! n) = DOMAIN_STATUS_APEX"
    using nl by (simp add: is_apex_def)
  show ?case
  proof (cases "nsecify_skip (?ds ! n)")
    case True
    with nl have nr: "\<not> retained ?ds n" by (simp add: retained_def)
    from pre_skip_not_apex[OF pre nr] ia
    have a1: "?a1 = apex" by simp
    have step: "nsecify_loop N zd klass stats apex (Some n) =
                nsecify_loop N zd klass stats apex (ldns_rbtree_next ?ds (Some n))"
      using nsecify_loop_skip[OF nl True, of N klass stats apex] a1 by simp
    show ?thesis
    proof (cases "Suc n < length ?ds")
      case S: True
      then have nx: "ldns_rbtree_next ?ds (Some n) = Some (Suc n)"
        by (simp add: ldns_rbtree_next_def)
      have k: "length ?ds - Suc n < length ?ds - n" using nl by simp
      from less(1)[OF k S pre_skip[OF pre nr]] obtain zd' stats'
        where r: "nsecify_loop N zd klass stats apex (Some (Suc n)) = Some (ODS_STATUS_OK, zd', stats')"
          and p: "loop_post ?ds apex (Suc n) (domains zd')" by blast
      from post_skip[OF pre nr p] r step nx show ?thesis by simp
    next
      case F: False
      with nl have e: "Suc n = length ?ds" by simp
      with nl have nx: "ldns_rbtree_next ?ds (Some n) = None"
        by (simp add: ldns_rbtree_next_def)
      have "nsecify_loop N zd klass stats apex (Some n) = Some (ODS_STATUS_OK, zd, stats)"
        using step nx nsecify_loop_None by simp
      with post_skip_end[OF nr e, of apex] show ?thesis by blast
    qed
  next
    case False
    with nl have r: "retained ?ds n" by (simp add: retained_def)
    have a1: "?a1 = (if is_apex ?ds n then Some n else apex)" using ia by simp
    from next_cases[OF r pre a1] obtain node1 to
      where nx: "nsecify_next ?ds ?a1 (ldns_rbtree_next ?ds (Some n)) = Some (Inr (node1, to))"
        and to: "retained ?ds to"
        and alt: "(node1 = Some to \<and> n < to \<and> (\<forall>j. n < j \<and> j < to \<longrightarrow> \<not> retained ?ds j)) \<or>
                  (node1 = None \<and> ?a1 = Some to \<and> (\<forall>j. n < j \<longrightarrow> \<not> retained ?ds j))"
      by blast
    let ?res = "N (?ds ! n) (?ds ! to) (default_ttl zd) klass stats"
    let ?d1 = "fst (snd ?res)"
    let ?zd1 = "zd\<lparr>domains := ?ds[n := ?d1]\<rparr>"
    from ok have r0: "fst ?res = 0" and c1: "core ?d1 = core (?ds ! n)"
      and nn: "map_option nsec_next (nsec_rrset ?d1) = Some (dname (?ds ! to))"
      unfolding nsecify_ok_def core_def by simp_all
    have step: "nsecify_loop N zd klass stats apex (Some n) =
                nsecify_loop N ?zd1 klass (snd (snd ?res)) ?a1 node1"
      by (rule nsecify_loop_retained[where N = N and zd = zd and klass = klass and stats = stats
            and apex = apex and n = n and to = to and ?node1.0 = node1, OF nl False nx r0])
    have m: "map core (?ds[n := ?d1]) = map core ?ds" using c1 by (rule core_update)
    from alt show ?thesis
    proof
      assume A: "node1 = Some to \<and> n < to \<and> (\<forall>j. n < j \<and> j < to \<longrightarrow> \<not> retained ?ds j)"
      then have lt: "n < to" and btw: "\<forall>j. n < j \<and> j < to \<longrightarrow> \<not> retained ?ds j" by blast+
      from to have tl: "to < length ?ds" by (simp add: retained_def)
      have k: "length (domains ?zd1) - to < length ?ds - n" using lt tl by simp
      have tl1: "to < length (domains ?zd1)" using tl by simp
      have pre1: "loop_pre (domains ?zd1) ?a1 to"
        using pre_next[OF pre r lt btw a1] loop_pre_core[OF m] by simp
      from less(1)[OF k tl1 pre1] obtain zd' stats'
        where res: "nsecify_loop N ?zd1 klass (snd (snd ?res)) ?a1 (Some to) = Some (ODS_STATUS_OK, zd', stats')"
          and p: "loop_post (domains ?zd1) ?a1 to (domains zd')" by blast
      from p have p': "loop_post (?ds[n := ?d1]) ?a1 to (domains zd')" by simp
      have "loop_post ?ds apex n (domains zd')"
        by (rule post_next[OF r lt to btw a1 c1 nn p'])
      moreover have "nsecify_loop N zd klass stats apex (Some n) = Some (ODS_STATUS_OK, zd', stats')"
        using step A res by simp
      ultimately show ?thesis by blast
    next
      assume B: "node1 = None \<and> ?a1 = Some to \<and> (\<forall>j. n < j \<longrightarrow> \<not> retained ?ds j)"
      then have last: "\<forall>j. n < j \<longrightarrow> \<not> retained ?ds j" and e: "?a1 = Some to" by blast+
      from e a1 have e': "(if is_apex ?ds n then Some n else apex) = Some to" by simp
      have "loop_post ?ds apex n (?ds[n := ?d1])"
        by (rule post_wrap[OF r to last e' c1 nn])
      moreover have "nsecify_loop N zd klass stats apex (Some n) = Some (ODS_STATUS_OK, ?zd1, snd (snd ?res))"
        using step B nsecify_loop_None by simp
      ultimately show ?thesis by (intro exI[of _ ?zd1] exI[of _ "snd (snd ?res)"]) simp
    qed
  qed
qed

lemma post_chain:
  assumes r: "\<forall>j. is_apex ds j \<longrightarrow> retained ds j" and p: "loop_post ds None 0 ds'"
  shows "nsec_chain ds ds'"
proof -
  have a: "map core ds' = map core ds"
    and b: "\<forall>i. i < length ds \<and> \<not> retained ds i \<longrightarrow> ds' ! i = ds ! i"
    and c: "\<forall>i. retained ds i \<longrightarrow>
        (\<exists>t. target_ok ds None 0 i t \<and>
             map_option nsec_next (nsec_rrset (ds' ! i)) = Some (dname (ds ! t)))"
    using p unfolding loop_post_def by simp_all
  have w: "wrap_ok ds None 0 t \<Longrightarrow> is_apex ds t \<and> (\<forall>j. t < j \<longrightarrow> \<not> is_apex ds j)" for t
    unfolding wrap_ok_def using r by blast
  have t: "target_ok ds None 0 i t \<Longrightarrow> nsec_target ds i t" for i t
    unfolding target_ok_def nsec_target_def using w by blast
  from a b c t show ?thesis unfolding nsec_chain_def by blast
qed

text \<open>
  Claim C9, as amended. Let some domain of the tree have the status \<open>DOMAIN_STATUS_APEX\<close>,
  let every domain with that status have at least one RRset, and let \<^verbatim>\<open>domain_nsecify\<close>
  succeed and write the NSEC with the next name it is given. Then \<open>zonedata_nsecify\<close>
  returns \<open>ODS_STATUS_OK\<close>, and afterwards every retained domain (status not \<open>NONE\<close>, not
  \<open>OCCLUDED\<close>, at least one RRset) carries an NSEC whose next name is the name of the next
  retained domain of the tree, the last retained domain wrapping around to the apex; names,
  statuses and RRsets are as before, and a skipped domain is as it was and is no next
  name.
\<close>

theorem nsecify_chain:
  assumes "nsecify_ok N"
    and "\<exists>d \<in> set (domains zd). dstatus d = DOMAIN_STATUS_APEX"
    and "\<forall>d \<in> set (domains zd). dstatus d = DOMAIN_STATUS_APEX \<longrightarrow> 0 < domain_count_rrset d"
  shows "\<exists>zd' stats'. zonedata_nsecify N zd klass stats = Some (ODS_STATUS_OK, zd', stats') \<and>
                      nsec_chain (domains zd) (domains zd')"
proof -
  let ?ds = "domains zd"
  from assms(2) obtain j where j: "j < length ?ds" "dstatus (?ds ! j) = DOMAIN_STATUS_APEX"
    by (auto simp: in_set_conv_nth)
  then have ne: "0 < length ?ds" by (cases ?ds) simp_all
  then have f: "ldns_rbtree_first ?ds = Some 0" by (simp add: ldns_rbtree_first_def)
  have r: "\<forall>j. is_apex ?ds j \<longrightarrow> retained ?ds j"
  proof (intro allI impI)
    fix i assume "is_apex ?ds i"
    then have i: "i < length ?ds" "dstatus (?ds ! i) = DOMAIN_STATUS_APEX" by (simp_all add: is_apex_def)
    then have "?ds ! i \<in> set ?ds" by simp
    with assms(3) i have "0 < domain_count_rrset (?ds ! i)" by blast
    with i show "retained ?ds i" by (simp add: retained_def nsecify_skip_def)
  qed
  from j have "is_apex ?ds j" by (simp add: is_apex_def)
  then have pre: "loop_pre ?ds None 0" unfolding loop_pre_def using r by auto
  from nsecify_loop_correct[OF assms(1) ne pre, of klass stats] obtain zd' stats'
    where res: "nsecify_loop N zd klass stats None (Some 0) = Some (ODS_STATUS_OK, zd', stats')"
      and p: "loop_post ?ds None 0 (domains zd')" by blast
  from res f have "zonedata_nsecify N zd klass stats = Some (ODS_STATUS_OK, zd', stats')"
    by (simp add: zonedata_nsecify_def)
  with post_chain[OF r p] show ?thesis by blast
qed

lemma domain_nsecify_spec_ok: "nsecify_ok domain_nsecify_spec"
  by (simp add: nsecify_ok_def domain_nsecify_spec_def)

lemma nsecify_next_hit:
  "m < length tree \<Longrightarrow> \<not> nsecify_skip (tree ! m) \<Longrightarrow>
   nsecify_next tree apex (Some m) = Some (Inr (Some m, m))"
  by (subst nsecify_next.simps) simp

lemmas nsecify_example_defs = mk_zonedata_def d_apex_def d_mail_def d_www_def mk_domain_def
  mk_rrset_def nsecify_skip_def domain_count_rrset_def domain_nsecify_spec_def
  ldns_rbtree_next_def ldns_rbtree_first_def Let_def

lemma nsecify_plain:
  "zonedata_nsecify domain_nsecify_spec zd_plain 1 0 = Some (ODS_STATUS_OK, zd_plain_nsec, 3)"
  unfolding zonedata_nsecify_def zd_plain_def zd_plain_nsec_def
  apply (simp add: nsecify_example_defs)
  apply (subst nsecify_loop.simps, simp add: nsecify_example_defs nsecify_next_hit)
  apply (subst nsecify_loop.simps, simp add: nsecify_example_defs nsecify_next_hit)
  apply (subst nsecify_loop.simps, simp add: nsecify_example_defs nsecify_next_total_None)
  apply (subst nsecify_loop.simps, simp)
  done

theorem nsecify_chain_witness:
  "zonedata_nsecify domain_nsecify_spec zd_plain 1 0 = Some (ODS_STATUS_OK, zd_plain_nsec, 3) \<and>
   nsec_chain (domains zd_plain) (domains zd_plain_nsec) \<and>
   map (\<lambda>d. map_option nsec_next (nsec_rrset d)) (domains zd_plain_nsec) =
     [Some [''mail'', ''example''], Some [''www'', ''example''], Some [''example'']]"
proof -
  have a: "\<exists>d \<in> set (domains zd_plain). dstatus d = DOMAIN_STATUS_APEX"
    by (simp add: zd_plain_def nsecify_example_defs)
  have b: "\<forall>d \<in> set (domains zd_plain). dstatus d = DOMAIN_STATUS_APEX \<longrightarrow> 0 < domain_count_rrset d"
    by (simp add: zd_plain_def nsecify_example_defs)
  from nsecify_chain[OF domain_nsecify_spec_ok a b, of 1 0] nsecify_plain
  have "nsec_chain (domains zd_plain) (domains zd_plain_nsec)" by auto
  moreover have "map (\<lambda>d. map_option nsec_next (nsec_rrset d)) (domains zd_plain_nsec) =
     [Some [''mail'', ''example''], Some [''www'', ''example''], Some [''example'']]"
    by (simp add: zd_plain_nsec_def nsecify_example_defs)
  ultimately show ?thesis using nsecify_plain by simp
qed

text \<open>
  When the apex has no RRset the inner loop cannot take it as the next domain, and the
  successor of the sentinel is the sentinel: the loop has no way out.
\<close>

lemma nsecify_next_loops:
  "nsecify_next tree apex node = Some y \<Longrightarrow>
   \<not> (node = None \<and> (\<exists>a. apex = Some a \<and> a < length tree \<and> nsecify_skip (tree ! a)))"
  apply (erule nsecify_next.raw_induct[rotated])
  subgoal premises 1 for f tree apex node y
  proof
    assume A: "node = None \<and> (\<exists>a. apex = Some a \<and> a < length tree \<and> nsecify_skip (tree ! a))"
    with 1(2) have "f tree apex None = Some y" by (auto simp: ldns_rbtree_next_def)
    from 1(1)[OF this] A show False by simp
  qed
  done

lemma nsecify_next_diverges:
  assumes "a < length tree" and "nsecify_skip (tree ! a)"
  shows "nsecify_next tree (Some a) None = None"
proof (cases "nsecify_next tree (Some a) None")
  case None then show ?thesis .
next
  case (Some y)
  from nsecify_next_loops[OF this] assms show ?thesis by simp
qed

lemma nsecify_loop_diverges:
  assumes "n < length (domains zd)" and "\<not> nsecify_skip (domains zd ! n)"
    and "nsecify_next (domains zd)
           (if dstatus (domains zd ! n) = DOMAIN_STATUS_APEX then Some n else apex)
           (ldns_rbtree_next (domains zd) (Some n)) = None"
  shows "nsecify_loop N zd klass stats apex (Some n) = None"
  using assms by (subst nsecify_loop.simps) (simp add: Let_def)

lemma nsecify_apex_empty:
  "zonedata_nsecify domain_nsecify_spec zd_apex_empty 1 0 = None"
  unfolding zonedata_nsecify_def zd_apex_empty_def d_apex_empty_def
  apply (simp add: nsecify_example_defs)
  apply (subst nsecify_loop.simps, simp add: nsecify_example_defs)
  apply (subst nsecify_loop.simps, simp add: nsecify_example_defs nsecify_next_diverges)
  done

lemma nsecify_apex_last:
  "zonedata_nsecify domain_nsecify_spec zd_apex_last 1 0 = Some (ODS_STATUS_ERR, zd_apex_last, 0)"
  unfolding zonedata_nsecify_def zd_apex_last_def d_apex_empty_def d_a_def
  apply (simp add: nsecify_example_defs)
  apply (subst nsecify_loop.simps, simp add: nsecify_example_defs)
  apply (subst nsecify_next.simps, simp add: nsecify_example_defs)
  apply (subst nsecify_next.simps, simp add: nsecify_example_defs)
  done

text \<open>
  Claim C9 as stated fails: this tree holds a domain with the status \<open>DOMAIN_STATUS_APEX\<close>,
  after the retained domain \<^verbatim>\<open>a.\<close> in key order and without RRsets. \<open>zonedata_nsecify\<close>
  skips it as the next domain, runs off the tree before it has seen an apex and returns
  \<open>ODS_STATUS_ERR\<close>; the retained domain has no NSEC.
\<close>

theorem nsecify_empty_apex_counterexample:
  "domain_compare (dname d_a) (dname d_apex_empty) < 0 \<and>
   dstatus (domains zd_apex_last ! 1) = DOMAIN_STATUS_APEX \<and>
   \<not> nsecify_skip (domains zd_apex_last ! 0) \<and>
   zonedata_nsecify domain_nsecify_spec zd_apex_last 1 0 = Some (ODS_STATUS_ERR, zd_apex_last, 0) \<and>
   nsec_rrset (domains zd_apex_last ! 0) = None"
proof -
  have "domain_compare (dname d_a) (dname d_apex_empty) < 0"
    by (simp add: d_a_def d_apex_empty_def mk_domain_def domain_compare_def ldns_dname_compare_def
        LDNS_DNAME_NORMALIZE_def)
  moreover have "dstatus (domains zd_apex_last ! 1) = DOMAIN_STATUS_APEX"
    "\<not> nsecify_skip (domains zd_apex_last ! 0)"
    "nsec_rrset (domains zd_apex_last ! 0) = None"
    by (simp_all add: zd_apex_last_def d_a_def d_apex_empty_def nsecify_example_defs)
  ultimately show ?thesis using nsecify_apex_last by simp
qed

end
